theory Spec2Isabelle
  imports Complex_Main "HOL-Library.Multiset" "HOL-Library.Char_ord" "HOL-Library.List_Lexorder"
begin

section \<open>Values, records, exceptions\<close>

text \<open>
  The notebook works on the dictionaries that the Blockchain Data API returns. A block is a
  Python dict from field names to JSON scalars; the fields the notebook reads are
  \<open>block_index\<close>, \<open>time\<close>, \<open>hash\<close> and \<open>height\<close>. Only integer and string scalars are
  modelled (the API's other JSON kinds are never read by the notebook).
\<close>

datatype val = IntV int | StrV string

type_synonym block = "string \<rightharpoonup> val"

text \<open>One pickled object of \<open>blocks.pkl\<close> is a list of blocks; the file is the sequence of
  the objects dumped into it.\<close>

type_synonym page = "block list"
type_synonym pkl = "page list"

text \<open>The exceptions the cells can raise. \<open>RequestException\<close> stands for any exception
  raised by \<open>requests.get\<close> itself (no response object is returned).\<close>

datatype error =
    KeyError | TypeError | ValueError | StatisticsError | ZeroDivisionError | RequestException

text \<open>\<open>block[k]\<close>\<close>

definition getitem :: "block \<Rightarrow> string \<Rightarrow> error + val" where
  "getitem b k = (case b k of None \<Rightarrow> Inl KeyError | Some v \<Rightarrow> Inr v)"

text \<open>\<open>list(map(f, xs))\<close> for an \<open>f\<close> that may raise: the first exception escapes.\<close>

fun mapM :: "('a \<Rightarrow> error + 'b) \<Rightarrow> 'a list \<Rightarrow> error + 'b list" where
  "mapM f [] = Inr []"
| "mapM f (x # xs) =
     (case f x of
        Inl e \<Rightarrow> Inl e
      | Inr y \<Rightarrow> (case mapM f xs of Inl e \<Rightarrow> Inl e | Inr ys \<Rightarrow> Inr (y # ys)))"

section \<open>The pickle file\<close>

text \<open>\<open>open('./data/blocks.pkl', 'wb')\<close> truncates the file; \<open>pickle.dump(obj, output)\<close>
  appends one object to it.\<close>

definition open_wb :: "pkl \<Rightarrow> pkl" where
  "open_wb file = []"

definition dump :: "page \<Rightarrow> pkl \<Rightarrow> pkl" where
  "dump obj output = output @ [obj]"

text \<open>
  \<^verbatim>\<open>
  blocks = []
  with open('./data/blocks.pkl', 'rb') as input:
      try:
          while True:
              blocks += pickle.load(input)
      except EOFError:
          pass
  \<close>
\<close>

fun load_all :: "pkl \<Rightarrow> block list \<Rightarrow> block list" where
  "load_all [] blocks = blocks"
| "load_all (obj # input) blocks = load_all input (blocks @ obj)"

definition read_blocks :: "pkl \<Rightarrow> block list" where
  "read_blocks file = load_all file []"

section \<open>The upstream API\<close>

text \<open>
  A request either raises or returns a response with a status code and a JSON body. For the
  \<open>blocks\<close> endpoint the body is the page that the first cell dumps as it is; for the
  \<open>block-height\<close> endpoint \<open>json\<close> is the list under the key \<open>blocks\<close> of the body.
  The answer may change from one attempt to the next, so the upstream is a function of the
  URL and of the attempt number \<open>tries\<close>. The cells run in one session, in the order of
  the notebook: the second cell uses \<open>requests\<close> and \<open>time\<close> as the first cell
  imports them. What the cells print and how long they sleep is not modelled.
\<close>

record response =
  status_code :: int
  json :: "block list"

datatype url = Blocks int | BlockHeight int

type_synonym upstream = "url \<Rightarrow> nat \<Rightarrow> error + response"

section \<open>Fetch Historical Blocks\<close>

definition start_time :: int where
  "start_time = 1231300800 * 1000"

text \<open>\<open>range(start, stop, step)\<close> for a positive step.\<close>

definition py_range :: "int \<Rightarrow> int \<Rightarrow> int \<Rightarrow> int list" where
  "py_range start stop step =
     map (\<lambda>k. start + int k * step) [0..<nat ((stop - start + step - 1) div step)]"

text \<open>
  \<^verbatim>\<open>
  for tries in range(5):
      request = requests.get(f"https://blockchain.info/blocks/{timestamp}?format=json")
      if request.status_code == 200:
          pickle.dump(request.json(), output, pickle.HIGHEST_PROTOCOL)
          break
      else:
          time.sleep(0.1)
          print(...)
  \<close>
  The result is the file as the loop leaves it, and the exception that ended it, if any.
\<close>

fun fetch_day :: "upstream \<Rightarrow> int \<Rightarrow> nat list \<Rightarrow> pkl \<Rightarrow> pkl \<times> error option" where
  "fetch_day get timestamp [] output = (output, None)"
| "fetch_day get timestamp (tries # rest) output =
     (case get (Blocks timestamp) tries of
        Inl e \<Rightarrow> (output, Some e)
      | Inr request \<Rightarrow>
          if status_code request = 200 then (dump (json request) output, None)
          else fetch_day get timestamp rest output)"

text \<open>\<open>for timestamp in range(start_time, end_time, 24 * 60 * 60 * 1000)\<close>\<close>

fun fetch_days :: "upstream \<Rightarrow> int list \<Rightarrow> pkl \<Rightarrow> pkl \<times> error option" where
  "fetch_days get [] output = (output, None)"
| "fetch_days get (timestamp # rest) output =
     (case fetch_day get timestamp [0..<5] output of
        (output', Some e) \<Rightarrow> (output', Some e)
      | (output', None) \<Rightarrow> fetch_days get rest output')"

text \<open>The first cell: \<open>file\<close> is \<open>blocks.pkl\<close> as the cell finds it, \<open>end_time\<close> the
  clock reading \<open>int(time.time() * 1000)\<close>.\<close>

definition fetcher :: "upstream \<Rightarrow> int \<Rightarrow> pkl \<Rightarrow> pkl \<times> error option" where
  "fetcher get end_time file =
     fetch_days get (py_range start_time end_time (24 * 60 * 60 * 1000)) (open_wb file)"

section \<open>Fetch any missing blocks\<close>

text \<open>
  \<^verbatim>\<open>
  block_indexes = set(map(lambda block: block['block_index'], blocks))
  max_index = max(block_indexes)
  block_list = set(range(0,max_index+1))
  missing_blocks = block_list - block_indexes
  \<close>
  \<open>max\<close> of an empty set raises \<open>ValueError\<close>. \<open>max\<close> of a set holding both integers
  and strings raises \<open>TypeError\<close>, and so does \<open>max_index+1\<close> when the maximum is a string.
\<close>

fun the_int :: "val \<Rightarrow> int" where
  "the_int (IntV i) = i"
| "the_int (StrV s) = 0"

fun the_str :: "val \<Rightarrow> string" where
  "the_str (StrV s) = s"
| "the_str (IntV i) = []"

fun is_int :: "val \<Rightarrow> bool" where
  "is_int (IntV i) = True"
| "is_int (StrV s) = False"

definition block_indexes :: "block list \<Rightarrow> error + val list" where
  "block_indexes blocks = mapM (\<lambda>block. getitem block ''block_index'') blocks"

definition missing_blocks :: "block list \<Rightarrow> error + int set" where
  "missing_blocks blocks =
     (case block_indexes blocks of
        Inl e \<Rightarrow> Inl e
      | Inr idxs \<Rightarrow>
          if idxs = [] then Inl ValueError
          else if \<not> list_all is_int idxs then Inl TypeError
          else let observed = set (map the_int idxs);
                   max_index = Max observed;
                   block_list = {0..max_index}
               in Inr (block_list - observed))"

text \<open>
  \<^verbatim>\<open>
  for tries in range(5):
      request = requests.get(f"https://blockchain.info/block-height/{block}?format=json")
      if request.status_code == 200:
          result = request.json()
          blocks_to_add += result['blocks']
          break
      else:
          time.sleep(0.1)
          print(...)
  \<close>
\<close>

fun fetch_block :: "upstream \<Rightarrow> int \<Rightarrow> nat list \<Rightarrow> block list \<Rightarrow> error + block list" where
  "fetch_block get block [] blocks_to_add = Inr blocks_to_add"
| "fetch_block get block (tries # rest) blocks_to_add =
     (case get (BlockHeight block) tries of
        Inl e \<Rightarrow> Inl e
      | Inr request \<Rightarrow>
          if status_code request = 200 then Inr (blocks_to_add @ json request)
          else fetch_block get block rest blocks_to_add)"

text \<open>\<open>for block in missing_blocks\<close>, over the missing indices in the order the set yields
  them.\<close>

fun fetch_missing :: "upstream \<Rightarrow> int list \<Rightarrow> block list \<Rightarrow> error + block list" where
  "fetch_missing get [] blocks_to_add = Inr blocks_to_add"
| "fetch_missing get (block # rest) blocks_to_add =
     (case fetch_block get block [0..<5] blocks_to_add of
        Inl e \<Rightarrow> Inl e
      | Inr blocks_to_add' \<Rightarrow> fetch_missing get rest blocks_to_add')"

text \<open>
  \<^verbatim>\<open>
  lambda record: {'hash': record['hash'], 'height': record['height'],
                  'time': record['time'], 'block_index': record['block_index']}
  \<close>
\<close>

definition project :: "block \<Rightarrow> error + block" where
  "project record =
     (case getitem record ''hash'' of
        Inl e \<Rightarrow> Inl e
      | Inr h \<Rightarrow>
     (case getitem record ''height'' of
        Inl e \<Rightarrow> Inl e
      | Inr g \<Rightarrow>
     (case getitem record ''time'' of
        Inl e \<Rightarrow> Inl e
      | Inr t \<Rightarrow>
     (case getitem record ''block_index'' of
        Inl e \<Rightarrow> Inl e
      | Inr i \<Rightarrow>
          Inr [''hash'' \<mapsto> h, ''height'' \<mapsto> g, ''time'' \<mapsto> t, ''block_index'' \<mapsto> i]))))"

text \<open>The keys of the dictionary that the projection builds.\<close>

definition core_fields :: "string set" where
  "core_fields = {''hash'', ''height'', ''time'', ''block_index''}"

text \<open>
  The second cell. Python does not fix the order in which a set is iterated, so the order
  is the parameter \<open>iter\<close>. \<open>Inl e\<close> means that the exception \<open>e\<close> escaped the cell; the file
  is reopened for writing only in the last statement, so it is then as it was.
  \<^verbatim>\<open>
  blocks += list(map(lambda record: {...}, blocks_to_add))
  with open('./data/blocks.pkl', 'wb') as output:
      pickle.dump(blocks, output, pickle.HIGHEST_PROTOCOL)
  \<close>
\<close>

definition reconciler :: "(int set \<Rightarrow> int list) \<Rightarrow> upstream \<Rightarrow> pkl \<Rightarrow> error + pkl" where
  "reconciler iter get file =
     (let blocks = read_blocks file in
      case missing_blocks blocks of
        Inl e \<Rightarrow> Inl e
      | Inr missing \<Rightarrow>
          (case fetch_missing get (iter missing) [] of
             Inl e \<Rightarrow> Inl e
           | Inr blocks_to_add \<Rightarrow>
               (case mapM project blocks_to_add of
                  Inl e \<Rightarrow> Inl e
                | Inr projected \<Rightarrow> Inr (dump (blocks @ projected) (open_wb file)))))"

section \<open>Prepare the data for use\<close>

text \<open>
  \<open>sorted(blocks, key=lambda block: block['block_index'])\<close>: the keys are computed first,
  then the list is sorted by them, stably. Integers compare with integers and strings with
  strings; a comparison of an integer with a string raises \<open>TypeError\<close>.
\<close>

definition sorted_blocks :: "block list \<Rightarrow> error + block list" where
  "sorted_blocks blocks =
     (case block_indexes blocks of
        Inl e \<Rightarrow> Inl e
      | Inr keys \<Rightarrow>
          if list_all is_int keys
            then Inr (map snd (sort_key fst (zip (map the_int keys) blocks)))
          else if list_all (\<lambda>k. \<not> is_int k) keys
            then Inr (map snd (sort_key fst (zip (map the_str keys) blocks)))
          else Inl TypeError)"

text \<open>\<open>list(map(lambda block: block['time'], sorted_blocks))\<close>\<close>

definition block_times :: "block list \<Rightarrow> error + val list" where
  "block_times bs = mapM (\<lambda>block. getitem block ''time'') bs"

text \<open>\<open>(a - b)/60\<close>: the difference of two integers, divided into a float. Floats are
  modelled by the real numbers they approximate.\<close>

fun minutes_between :: "val \<Rightarrow> val \<Rightarrow> error + real" where
  "minutes_between (IntV a) (IntV b) = Inr (real_of_int (a - b) / 60)"
| "minutes_between a b = Inl TypeError"

text \<open>\<open>[(block_times[i] - block_times[i-1])/60 for i in range(1,len(block_times))]\<close>\<close>

definition time_diff :: "val list \<Rightarrow> error + real list" where
  "time_diff ts =
     mapM (\<lambda>i. minutes_between (ts ! i) (ts ! (i - 1))) [1..<length ts]"

text \<open>The third cell.\<close>

definition prepare :: "pkl \<Rightarrow> error + real list" where
  "prepare file =
     (let blocks = read_blocks file in
      case sorted_blocks blocks of
        Inl e \<Rightarrow> Inl e
      | Inr bs \<Rightarrow>
          (case block_times bs of
             Inl e \<Rightarrow> Inl e
           | Inr ts \<Rightarrow> time_diff ts))"

section \<open>Time Delta Statistics\<close>

text \<open>
  \<open>statistics.mean\<close> and \<open>statistics.stdev\<close> (the sample standard deviation): they raise
  \<open>StatisticsError\<close> on fewer than one and fewer than two data points.
\<close>

definition mean :: "real list \<Rightarrow> error + real" where
  "mean data =
     (if length data < 1 then Inl StatisticsError
      else Inr (sum_list data / real (length data)))"

definition stdev :: "real list \<Rightarrow> error + real" where
  "stdev data =
     (if length data < 2 then Inl StatisticsError
      else let xbar = sum_list data / real (length data)
           in Inr (sqrt (sum_list (map (\<lambda>x. (x - xbar)\<^sup>2) data) / real (length data - 1))))"

text \<open>\<open>math.erf\<close>, as the error function on the reals (its Maclaurin series).\<close>

definition erf :: "real \<Rightarrow> real" where
  "erf x = 2 / sqrt pi * (\<Sum>n. (- 1) ^ n * x ^ (2 * n + 1) / (fact n * real (2 * n + 1)))"

text \<open>\<open>round(x)\<close> of a float: to the nearest integer, a tie to the even one.\<close>

definition py_round :: "real \<Rightarrow> int" where
  "py_round x =
     (let f = \<lfloor>x\<rfloor>; d = x - of_int f
      in if d < 1 / 2 then f else if 1 / 2 < d then f + 1 else if even f then f else f + 1)"

text \<open>\<open>cdf = (1+math.erf((120-avg)/stdev(time_diff)/math.sqrt(2)))/2\<close>; a float division
  by zero raises \<open>ZeroDivisionError\<close>.\<close>

definition cdf :: "real \<Rightarrow> real list \<Rightarrow> error + real" where
  "cdf avg deltas =
     (case stdev deltas of
        Inl e \<Rightarrow> Inl e
      | Inr s \<Rightarrow>
          if s = 0 then Inl ZeroDivisionError
          else Inr ((1 + erf ((120 - avg) / s / sqrt 2)) / 2))"

text \<open>\<open>actual = len(list(filter(lambda time: time >= 120, time_diff))) / len(time_diff)\<close>\<close>

definition actual :: "real list \<Rightarrow> error + real" where
  "actual deltas =
     (if length deltas = 0 then Inl ZeroDivisionError
      else Inr (real (length (filter (\<lambda>time. time \<ge> 120) deltas)) / real (length deltas)))"

text \<open>What the fourth cell has computed when it ends: the two probabilities, and the three
  numbers it prints.\<close>

record stats =
  normal_prob :: real
  actual_prob :: real
  normal_every :: int
  actual_every :: int
  days_between_long_blocks :: int

text \<open>
  \<^verbatim>\<open>
  avg = mean(time_diff)
  cdf = (1+math.erf((120-avg)/stdev(time_diff)/math.sqrt(2)))/2
  prob = 1 - cdf
  actual = len(list(filter(lambda time: time >= 120, time_diff))) / len(time_diff)
  days_between_long_blocks = round(avg / actual / 60)
  print(f"... {int(round(1/prob))} blocks.")
  print(f"... {int(round(1/actual))} blocks, or once every {days_between_long_blocks} days")
  \<close>
\<close>

definition time_delta_statistics :: "real list \<Rightarrow> error + stats" where
  "time_delta_statistics deltas =
     (case mean deltas of
        Inl e \<Rightarrow> Inl e
      | Inr avg \<Rightarrow>
     (case cdf avg deltas of
        Inl e \<Rightarrow> Inl e
      | Inr c \<Rightarrow>
     (let prob = 1 - c in
      case actual deltas of
        Inl e \<Rightarrow> Inl e
      | Inr a \<Rightarrow>
          if a = 0 then Inl ZeroDivisionError
          else let days = py_round (avg / a / 60)
               in if prob = 0 then Inl ZeroDivisionError
                  else Inr \<lparr>normal_prob = prob, actual_prob = a,
                            normal_every = py_round (1 / prob),
                            actual_every = py_round (1 / a),
                            days_between_long_blocks = days\<rparr>)))"

section \<open>Determine the number of blocks with 2 hours or more between them\<close>

text \<open>\<open>long_block_deltas = len(list(filter(lambda time: time >= 120, time_diff)))\<close>\<close>

definition long_block_deltas :: "real list \<Rightarrow> nat" where
  "long_block_deltas deltas = length (filter (\<lambda>time. time \<ge> 120) deltas)"

section \<open>Blocks with integer fields\<close>

text \<open>The index and the time of a block whose \<open>block_index\<close> and \<open>time\<close> are integers, and
  the minutes between each block of a list and the one before it. The theorems about the
  third cell are stated with them.\<close>

definition index_of :: "block \<Rightarrow> int" where
  "index_of block = (case block ''block_index'' of Some (IntV i) \<Rightarrow> i | _ \<Rightarrow> 0)"

definition time_of :: "block \<Rightarrow> int" where
  "time_of block = (case block ''time'' of Some (IntV t) \<Rightarrow> t | _ \<Rightarrow> 0)"

definition minutes_apart :: "block list \<Rightarrow> real list" where
  "minutes_apart bs =
     map (\<lambda>i. real_of_int (time_of (bs ! i) - time_of (bs ! (i - 1))) / 60) [1..<length bs]"

section \<open>What an upstream yields\<close>

text \<open>
  The theorems about the first two cells speak of the upstream, not of the cells' own
  variables. An attempt succeeds when it returns a response with status 200. The page of a
  URL is the body of the first of the five attempts that succeeds, if there is one; the
  blocks recovered for a missing index are the page of its \<open>block-height\<close> URL, or none.
\<close>

definition succeeded :: "upstream \<Rightarrow> url \<Rightarrow> nat \<Rightarrow> bool" where
  "succeeded get u tries =
     (case get u tries of Inl e \<Rightarrow> False | Inr request \<Rightarrow> status_code request = 200)"

definition first_page :: "upstream \<Rightarrow> url \<Rightarrow> page option" where
  "first_page get u =
     (case find (succeeded get u) [0..<5] of
        None \<Rightarrow> None
      | Some tries \<Rightarrow> (case get u tries of Inl e \<Rightarrow> None | Inr request \<Rightarrow> Some (json request)))"

definition recovered :: "upstream \<Rightarrow> int \<Rightarrow> block list" where
  "recovered get block =
     (case first_page get (BlockHeight block) of None \<Rightarrow> [] | Some blocks \<Rightarrow> blocks)"

text \<open>Each of the five attempts at the URL returns a response (none raises).\<close>

definition answers :: "upstream \<Rightarrow> url \<Rightarrow> bool" where
  "answers get u = (\<forall>tries<5. \<exists>request. get u tries = Inr request)"

text \<open>The timestamps of the first cell's loop.\<close>

definition days :: "int \<Rightarrow> int list" where
  "days end_time = py_range start_time end_time (24 * 60 * 60 * 1000)"

text \<open>The set of the values of \<open>block_index\<close> in the store.\<close>

definition store_indexes :: "pkl \<Rightarrow> val option set" where
  "store_indexes fl = (\<lambda>block. block ''block_index'') ` set (read_blocks fl)"

text \<open>The upstream has nothing new for the store: for every missing index each attempt
  returns, and a response with status 200 carries only records that have the four core
  fields and an index that the store already holds.\<close>

definition nothing_new :: "upstream \<Rightarrow> int set \<Rightarrow> pkl \<Rightarrow> bool" where
  "nothing_new get missing fl =
     (\<forall>k\<in>missing. \<forall>tries<5. \<exists>request. get (BlockHeight k) tries = Inr request
        \<and> (status_code request = 200 \<longrightarrow>
             (\<forall>rcd\<in>set (json request).
                core_fields \<subseteq> dom rcd \<and> rcd ''block_index'' \<in> store_indexes fl)))"

section \<open>The standard normal distribution\<close>

text \<open>The distribution function of the standard normal distribution, written with the
  error function.\<close>

definition std_normal_cdf :: "real \<Rightarrow> real" where
  "std_normal_cdf z = (1 + erf (z / sqrt 2)) / 2"

text \<open>The terms of the series of \<open>erf\<close>, its coefficients as a power series, the absolute
  values of the terms at 5, and bounds for their alternating sums in integer arithmetic:
  \<open>alt_bounds n m lo hi\<close> encloses the sum of \<open>n\<close> terms from the \<open>m\<close>-th on, scaled by the
  factor by which \<open>lo\<close> and \<open>hi\<close> enclose the \<open>m\<close>-th term.\<close>

definition erf_term :: "real \<Rightarrow> nat \<Rightarrow> real" where
  "erf_term x n = (- 1) ^ n * x ^ (2 * n + 1) / (fact n * real (2 * n + 1))"

definition erf_coeff :: "nat \<Rightarrow> real" where
  "erf_coeff n = (if even n then 0 else (- 1) ^ ((n - 1) div 2) / (fact ((n - 1) div 2) * real n))"

definition erf_abs5 :: "nat \<Rightarrow> real" where
  "erf_abs5 m = 5 ^ (2 * m + 1) / (fact m * real (2 * m + 1))"

fun alt_bounds :: "nat \<Rightarrow> nat \<Rightarrow> int \<Rightarrow> int \<Rightarrow> int \<times> int" where
  "alt_bounds 0 m lo hi = (0, 0)"
| "alt_bounds (Suc n) m lo hi =
     (let c = 25 * (2 * int m + 1);
          d = (int m + 1) * (2 * int m + 3);
          lu = alt_bounds n (Suc m) (lo * c div d) (- ((- (hi * c)) div d))
      in (lo - snd lu, hi - fst lu))"

section \<open>Example inputs\<close>

text \<open>A block as the API returns it, with index (and height) \<open>i\<close> mined at time \<open>t\<close>.\<close>

definition example_block :: "int \<Rightarrow> int \<Rightarrow> block" where
  "example_block i t =
     [''hash'' \<mapsto> StrV ''h'', ''height'' \<mapsto> IntV i, ''time'' \<mapsto> IntV t,
      ''block_index'' \<mapsto> IntV i]"

text \<open>An upstream that answers every request with status 503.\<close>

definition unavailable :: upstream where
  "unavailable u tries = Inr \<lparr>status_code = 503, json = []\<rparr>"


text \<open>An upstream that answers every request with status 200 and two blocks of index 2,
  each with a field beyond the four that the second cell keeps.\<close>

definition two_at_height :: upstream where
  "two_at_height u tries =
     Inr \<lparr>status_code = 200,
          json = [(example_block 2 20)(''main_chain'' \<mapsto> IntV 1),
                  (example_block 2 25)(''hash'' \<mapsto> StrV ''g'', ''main_chain'' \<mapsto> IntV 0)]\<rparr>"

text \<open>An upstream that answers every attempt at the first day with status 503 and every other
  request with status 200 and one block.\<close>

definition second_day_up :: upstream where
  "second_day_up u tries =
     (if u = Blocks start_time then Inr \<lparr>status_code = 503, json = []\<rparr>
      else Inr \<lparr>status_code = 200, json = [example_block 1 10]\<rparr>)"


text \<open>A store with the indices 0 and 3, and what the second cell makes of it when the
  upstream answers each missing height with two blocks of index 2.\<close>

definition gap_store :: pkl where
  "gap_store = [[example_block 0 0], [example_block 3 30]]"

definition gap_store_once :: pkl where
  "gap_store_once =
     [[example_block 0 0, example_block 3 30,
       example_block 2 20, (example_block 2 25)(''hash'' \<mapsto> StrV ''g''),
       example_block 2 20, (example_block 2 25)(''hash'' \<mapsto> StrV ''g'')]]"


text \<open>A store in which the index 1 occurs three times, apart from one another and out of
  order: the same block on two pages, with the block of index 0 between them, and a second
  block of index 1 with an earlier time.\<close>

definition scattered_store :: pkl where
  "scattered_store =
     [[example_block 1 60, example_block 0 0],
      [example_block 1 60, (example_block 1 0)(''hash'' \<mapsto> StrV ''g'')]]"

section \<open>Reading the file, mapping with exceptions\<close>

lemma load_all_concat: "load_all fl blocks = blocks @ concat fl"
  by (induction fl arbitrary: blocks) auto

lemma read_blocks_concat: "read_blocks fl = concat fl"
  by (simp add: read_blocks_def load_all_concat)

lemma mapM_length: "mapM f xs = Inr ys \<Longrightarrow> length ys = length xs"
  by (induction xs arbitrary: ys) (auto split: sum.splits)

lemma mapM_nth: "mapM f xs = Inr ys \<Longrightarrow> i < length xs \<Longrightarrow> f (xs ! i) = Inr (ys ! i)"
proof (induction xs arbitrary: ys i)
  case Nil
  then show ?case by simp
next
  case (Cons x xs)
  then show ?case by (cases i) (auto split: sum.splits)
qed

lemma mapM_map: "(\<And>x. x \<in> set xs \<Longrightarrow> f x = Inr (g x)) \<Longrightarrow> mapM f xs = Inr (map g xs)"
  by (induction xs) auto

lemma upt5: "[0..<5] = [0, 1, 2, 3, 4]"
  by (simp add: upt_rec)

lemma block_indexes_int:
  assumes "\<forall>block\<in>set blocks. \<exists>i. block ''block_index'' = Some (IntV i)"
  shows "block_indexes blocks = Inr (map (\<lambda>block. the (block ''block_index'')) blocks)"
  unfolding block_indexes_def
  by (rule mapM_map) (use assms in \<open>auto simp: getitem_def\<close>)

section \<open>The missing indices\<close>

text \<open>
  Claim C1. For every non-empty record store whose records have integer indices, the second
  cell computes \<open>missing_blocks\<close> as exactly the set difference of \<open>{0 .. max index}\<close> and
  the set of observed indices. The observed indices are stated here from the records, not
  from the list the cell builds.
\<close>

theorem missing_blocks_set_difference:
  assumes "read_blocks fl \<noteq> []"
    and "\<forall>block\<in>set (read_blocks fl). \<exists>i. block ''block_index'' = Some (IntV i)"
  shows "missing_blocks (read_blocks fl) =
           Inr ({0..Max {i. \<exists>block\<in>set (read_blocks fl). block ''block_index'' = Some (IntV i)}}
                - {i. \<exists>block\<in>set (read_blocks fl). block ''block_index'' = Some (IntV i)})"
proof -
  let ?bs = "read_blocks fl"
  let ?idxs = "map (\<lambda>block. the (block ''block_index'')) ?bs"
  have idx: "block_indexes ?bs = Inr ?idxs"
    using assms(2) by (rule block_indexes_int)
  have ints: "list_all is_int ?idxs"
    using assms(2) by (auto simp: list_all_iff)
  have obs: "set (map the_int ?idxs) = {i. \<exists>block\<in>set ?bs. block ''block_index'' = Some (IntV i)}"
    using assms(2) by (force simp: image_iff)
  show ?thesis
    unfolding missing_blocks_def idx using assms(1) ints obs
    by (simp add: Let_def)
qed

text \<open>The example of the claim: a store of two pages with the indices 0, 1, 3 and 5 has the
  missing indices 2 and 4.\<close>

theorem missing_blocks_set_difference_witness:
  "missing_blocks (read_blocks [[example_block 0 0, example_block 1 10],
                                [example_block 3 30, example_block 5 50]])
     = Inr {2, 4}"
proof -
  let ?fl = "[[example_block 0 0, example_block 1 10], [example_block 3 30, example_block 5 50]]"
  have ne: "read_blocks ?fl \<noteq> []"
    by (simp add: read_blocks_def)
  have wf: "\<forall>block\<in>set (read_blocks ?fl). \<exists>i. block ''block_index'' = Some (IntV i)"
    by (simp add: read_blocks_def example_block_def)
  have obs: "{i. \<exists>block\<in>set (read_blocks ?fl). block ''block_index'' = Some (IntV i)} = {0, 1, 3, 5}"
    by (auto simp: read_blocks_def example_block_def)
  have diff: "{0..5} - {0, 1, 3, 5} = {2, 4::int}"
    by auto
  show ?thesis
    using missing_blocks_set_difference [OF ne wf] unfolding obs
    by (simp add: diff)
qed

section \<open>The statistics\<close>

lemma erf_0: "erf 0 = 0"
  by (simp add: erf_def)

lemma sum_list_const: "\<forall>x\<in>set xs. x = c \<Longrightarrow> sum_list xs = real (length xs) * c"
  by (induction xs) (auto simp: algebra_simps)

lemma sum_list_all_zero: "\<forall>x\<in>set xs. f x = (0::real) \<Longrightarrow> sum_list (map f xs) = 0"
  by (induction xs) auto

lemma stdev_const:
  assumes "2 \<le> length deltas" and "\<forall>x\<in>set deltas. x = c"
  shows "stdev deltas = Inr 0"
proof -
  have "deltas \<noteq> []"
    using assms(1) by auto
  then have "sum_list deltas / real (length deltas) = c"
    using assms(2) by (simp add: sum_list_const)
  then have "sum_list (map (\<lambda>x. (x - sum_list deltas / real (length deltas))\<^sup>2) deltas) = 0"
    using assms(2) by (intro sum_list_all_zero) simp
  then show ?thesis
    using assms(1) by (simp add: stdev_def Let_def)
qed

lemma stdev_Inr: "2 \<le> length deltas \<Longrightarrow> \<exists>s. stdev deltas = Inr s"
  by (simp add: stdev_def Let_def)

lemma count_ge_card:
  "length (filter (\<lambda>time. time \<ge> 120) deltas) = card {i. i < length deltas \<and> (120::real) \<le> deltas ! i}"
  by (simp add: length_filter_conv_card)

text \<open>
  Claim C2, as the code has it. The fourth cell has no check of its own for a degenerate
  delta series. On fewer than two deltas \<open>statistics.mean\<close> or \<open>statistics.stdev\<close> raises
  \<open>StatisticsError\<close>. On two or more identical deltas the standard deviation is zero, and on
  two or more deltas none of which reaches 120 the empirical probability is zero: the
  division raises \<open>ZeroDivisionError\<close>, which escapes the cell. In none of these cases is a
  number returned.
\<close>

theorem degenerate_series_raise:
  "(length deltas < 2 \<longrightarrow> time_delta_statistics deltas = Inl StatisticsError)
   \<and> (2 \<le> length deltas \<and> (\<forall>x\<in>set deltas. x = c) \<longrightarrow>
        time_delta_statistics deltas = Inl ZeroDivisionError)
   \<and> (2 \<le> length deltas \<and> long_block_deltas deltas = 0 \<longrightarrow>
        time_delta_statistics deltas = Inl ZeroDivisionError)"
proof (intro conjI impI)
  assume "length deltas < 2"
  then consider "deltas = []" | x where "deltas = [x]"
    by (cases deltas) (auto simp: length_Suc_conv)
  then show "time_delta_statistics deltas = Inl StatisticsError"
    by cases (simp_all add: time_delta_statistics_def mean_def cdf_def stdev_def)
next
  assume a: "2 \<le> length deltas \<and> (\<forall>x\<in>set deltas. x = c)"
  then have "stdev deltas = Inr 0"
    by (intro stdev_const) auto
  then show "time_delta_statistics deltas = Inl ZeroDivisionError"
    using a by (auto simp: time_delta_statistics_def mean_def cdf_def)
next
  assume a: "2 \<le> length deltas \<and> long_block_deltas deltas = 0"
  then obtain s where s: "stdev deltas = Inr s"
    using stdev_Inr by blast
  have act: "actual deltas = Inr 0"
    using a by (auto simp: actual_def long_block_deltas_def)
  show "time_delta_statistics deltas = Inl ZeroDivisionError"
    using a s act by (auto simp: time_delta_statistics_def mean_def cdf_def Let_def)
qed

theorem degenerate_series_raise_witness:
  "time_delta_statistics [] = Inl StatisticsError
   \<and> time_delta_statistics [10] = Inl StatisticsError
   \<and> time_delta_statistics [10, 10, 10] = Inl ZeroDivisionError
   \<and> time_delta_statistics [10, 20] = Inl ZeroDivisionError"
  using degenerate_series_raise [of "[]"] degenerate_series_raise [of "[10]"]
    degenerate_series_raise [of "[10, 10, 10]" 10] degenerate_series_raise [of "[10, 20]"]
  by (simp add: long_block_deltas_def)

text \<open>Against claim C2 as stated: on the zero-variance series \<open>[10, 10]\<close> the exception
  that escapes is the division by zero itself.\<close>

theorem zero_variance_counterexample:
  "time_delta_statistics [10, 10] = Inl ZeroDivisionError"
  by (simp add: time_delta_statistics_def mean_def cdf_def stdev_def)

text \<open>
  Claim C8. For every non-empty delta series the empirical tail probability is the number
  of deltas of at least 120 minutes divided by the number of deltas, also as the fourth cell
  holds it when it ends; the long-gap count of the fifth cell is the number of deltas of at
  least 120; the series \<open>[60, 60, 180, 60]\<close> has the long-gap count 1. The number of such
  deltas is stated here by counting positions.
\<close>

theorem empirical_tail_probability:
  "(deltas \<noteq> [] \<longrightarrow>
      actual deltas = Inr (real (card {i. i < length deltas \<and> 120 \<le> deltas ! i}) / real (length deltas)))
   \<and> (time_delta_statistics deltas = Inr st \<longrightarrow>
      actual_prob st = real (card {i. i < length deltas \<and> 120 \<le> deltas ! i}) / real (length deltas))
   \<and> long_block_deltas deltas = card {i. i < length deltas \<and> 120 \<le> deltas ! i}
   \<and> long_block_deltas [60, 60, 180, 60] = 1"
proof (intro conjI impI)
  assume "deltas \<noteq> []"
  then show "actual deltas = Inr (real (card {i. i < length deltas \<and> 120 \<le> deltas ! i}) / real (length deltas))"
    by (simp add: actual_def count_ge_card)
next
  assume "time_delta_statistics deltas = Inr st"
  then show "actual_prob st = real (card {i. i < length deltas \<and> 120 \<le> deltas ! i}) / real (length deltas)"
    by (auto simp: time_delta_statistics_def actual_def count_ge_card Let_def
        split: sum.splits if_splits)
next
  show "long_block_deltas deltas = card {i. i < length deltas \<and> 120 \<le> deltas ! i}"
    by (simp add: long_block_deltas_def count_ge_card)
next
  show "long_block_deltas [60, 60, 180, 60] = 1"
    by (simp add: long_block_deltas_def)
qed

text \<open>A series on which the fourth cell returns: the mean is 120, so the error function is
  taken at 0.\<close>

lemma stats_60_180:
  "time_delta_statistics [60, 180] =
     Inr \<lparr>normal_prob = 1 / 2, actual_prob = 1 / 2, normal_every = 2, actual_every = 2,
          days_between_long_blocks = 4\<rparr>"
  by (simp add: time_delta_statistics_def mean_def cdf_def stdev_def actual_def erf_0 py_round_def Let_def)

theorem empirical_tail_probability_witness:
  "actual [60, 60, 180, 60] = Inr (1 / 4)
   \<and> card {i. i < length [60, 60, 180, 60 :: real] \<and> 120 \<le> [60, 60, 180, 60 :: real] ! i} = 1
   \<and> actual_prob \<lparr>normal_prob = 1 / 2, actual_prob = 1 / 2, normal_every = 2, actual_every = 2,
          days_between_long_blocks = 4\<rparr>
      = real (card {i. i < length [60, 180 :: real] \<and> 120 \<le> [60, 180 :: real] ! i}) / real (length [60, 180 :: real])"
  using empirical_tail_probability [of "[60, 60, 180, 60]"]
    empirical_tail_probability [of "[60, 180]"] stats_60_180
  by (simp add: long_block_deltas_def)

section \<open>The tail of the normal distribution\<close>

text \<open>The series of \<open>erf\<close> converges everywhere; as a power series it can be differentiated
  term by term, the derivative is \<open>2 / sqrt pi * exp (- x\<^sup>2)\<close>, and so \<open>erf\<close> is monotone.\<close>

lemma erf_term_summable: "summable (erf_term x)"
proof (rule summable_comparison_test')
  show "summable (\<lambda>n. \<bar>x\<bar> * (inverse (fact n) * (x\<^sup>2) ^ n))"
    by (intro summable_mult summable_exp)
  show "norm (erf_term x n) \<le> \<bar>x\<bar> * (inverse (fact n) * (x\<^sup>2) ^ n)" for n
  proof -
    have "\<bar>x\<bar> ^ (2 * n) = (x\<^sup>2) ^ n"
      by (simp add: power_even_abs power_mult)
    then have "norm (erf_term x n) = \<bar>x\<bar> * (x\<^sup>2) ^ n / (fact n * real (2 * n + 1))"
      by (simp add: erf_term_def abs_mult power_abs abs_divide)
    also have "\<dots> \<le> \<bar>x\<bar> * (x\<^sup>2) ^ n / (fact n * 1)"
      by (intro divide_left_mono mult_left_mono mult_nonneg_nonneg mult_pos_pos) auto
    finally show ?thesis
      by (simp add: field_simps)
  qed
qed

lemma erf_sum: "erf x = 2 / sqrt pi * suminf (erf_term x)"
proof -
  have "erf_term x = (\<lambda>n. (- 1) ^ n * x ^ (2 * n + 1) / (fact n * real (2 * n + 1)))"
    by (rule ext) (simp only: erf_term_def)
  then show ?thesis
    by (simp only: erf_def)
qed

lemma erf_coeff_term:
  "erf_coeff n * x ^ n = (if even n then 0 else erf_term x ((n - 1) div 2))"
proof (cases "even n")
  case True
  then show ?thesis by (simp add: erf_coeff_def)
next
  case False
  then obtain m where m: "n = 2 * m + 1"
    by (auto elim: oddE)
  then show ?thesis
    by (simp add: erf_coeff_def erf_term_def)
qed

lemma erf_coeff_sums: "(\<lambda>n. erf_coeff n * x ^ n) sums suminf (erf_term x)"
  unfolding erf_coeff_term
  by (rule sums_if') (use erf_term_summable in \<open>simp add: summable_sums\<close>)

lemma erf_power_series: "erf x = 2 / sqrt pi * (\<Sum>n. erf_coeff n * x ^ n)"
  using erf_coeff_sums [of x] by (simp add: erf_sum sums_unique)

lemma diffs_erf_coeff:
  "diffs erf_coeff n * x ^ n = (if even n then (- (x\<^sup>2)) ^ (n div 2) /\<^sub>R fact (n div 2) else 0)"
proof (cases "even n")
  case True
  then obtain m where m: "n = 2 * m"
    by (auto elim: evenE)
  have p: "(- (x\<^sup>2)) ^ m = (- 1) ^ m * x ^ (2 * m)"
    by (simp add: power_mult power_minus [of "x\<^sup>2"])
  have "diffs erf_coeff (2 * m) = (- 1) ^ m / fact m"
    by (simp add: diffs_def erf_coeff_def)
  then show ?thesis
    using m p by (simp add: divide_inverse mult.commute)
next
  case False
  then show ?thesis
    by (simp add: diffs_def erf_coeff_def)
qed

lemma diffs_erf_coeff_sums: "(\<lambda>n. diffs erf_coeff n * x ^ n) sums exp (- (x\<^sup>2))"
proof -
  have "(\<lambda>n. (- (x\<^sup>2)) ^ n /\<^sub>R fact n) sums exp (- (x\<^sup>2))"
    by (rule exp_converges)
  from sums_if [OF sums_zero this]
  have "(\<lambda>n. if even n then (- (x\<^sup>2)) ^ (n div 2) /\<^sub>R fact (n div 2) else 0) sums exp (- (x\<^sup>2))"
    by simp
  then show ?thesis
    by (simp only: diffs_erf_coeff)
qed

lemma DERIV_erf: "DERIV erf x :> 2 / sqrt pi * exp (- (x\<^sup>2))"
proof -
  have "summable (\<lambda>n. erf_coeff n * y ^ n)" for y
    using erf_coeff_sums [of y] by (rule sums_summable)
  then have "DERIV (\<lambda>x. \<Sum>n. erf_coeff n * x ^ n) x :> (\<Sum>n. diffs erf_coeff n * x ^ n)"
    by (rule termdiffs_strong_converges_everywhere)
  moreover have "(\<Sum>n. diffs erf_coeff n * x ^ n) = exp (- (x\<^sup>2))"
    using diffs_erf_coeff_sums [of x] by (rule sums_unique [symmetric])
  ultimately have "DERIV (\<lambda>x. \<Sum>n. erf_coeff n * x ^ n) x :> exp (- (x\<^sup>2))"
    by simp
  then have "DERIV (\<lambda>x. 2 / sqrt pi * (\<Sum>n. erf_coeff n * x ^ n)) x :> 2 / sqrt pi * exp (- (x\<^sup>2))"
    by (rule DERIV_cmult)
  then show ?thesis
    by (simp add: erf_power_series [abs_def])
qed

lemma erf_mono:
  assumes "a \<le> b"
  shows "erf a \<le> erf b"
proof (rule DERIV_nonneg_imp_nondecreasing [OF assms])
  fix x
  show "\<exists>y. DERIV erf x :> y \<and> 0 \<le> y"
    using DERIV_erf [of x] by (intro exI [of _ "2 / sqrt pi * exp (- (x\<^sup>2))"]) simp
qed

text \<open>At 5 the terms of the series decrease in absolute value from the 23rd on, so the sum
  of the first 96 terms is a lower bound of the series; that sum is bounded from below in
  integer arithmetic.\<close>

lemma erf_term_5: "erf_term 5 m = (- 1) ^ m * erf_abs5 m"
  by (simp add: erf_term_def erf_abs5_def)

lemma erf_abs5_nonneg: "0 \<le> erf_abs5 m"
  by (simp add: erf_abs5_def)

lemma erf_abs5_Suc:
  "erf_abs5 (Suc m) = erf_abs5 m * (25 * real (2 * m + 1)) / (real (m + 1) * real (2 * m + 3))"
proof -
  define F :: real where "F = fact m"
  define A where "A = real (m + 1) * real (2 * m + 3)"
  define R where "R = real (2 * m + 1)"
  define P :: real where "P = 5 ^ (2 * m + 1)"
  have nz: "F \<noteq> 0" "A \<noteq> 0" "R \<noteq> 0"
    by (simp_all add: F_def A_def R_def del: of_nat_add of_nat_mult of_nat_Suc)
  have a: "erf_abs5 (Suc m) = P * 25 / (F * A)"
    unfolding erf_abs5_def F_def A_def P_def
    by (simp add: field_simps del: of_nat_add of_nat_mult of_nat_Suc)
  have b: "erf_abs5 m = P / (F * R)"
    unfolding erf_abs5_def F_def R_def P_def ..
  have "P / (F * R) * (25 * R) / A = P * 25 / (F * A)"
    using nz by (simp add: field_simps)
  then show ?thesis
    unfolding a b A_def R_def by simp
qed

lemma erf_abs5_decreasing:
  assumes "23 \<le> m"
  shows "erf_abs5 (Suc m) \<le> erf_abs5 m"
proof -
  obtain k where k: "m = 23 + k"
    using assms by (metis le_add_diff_inverse)
  have "25 * (2 * m + 1) \<le> (m + 1) * (2 * m + 3)"
    unfolding k by (simp add: algebra_simps)
  then have "real (25 * (2 * m + 1)) \<le> real ((m + 1) * (2 * m + 3))"
    by (rule iffD2 [OF of_nat_le_iff])
  then have r: "25 * real (2 * m + 1) \<le> real (m + 1) * real (2 * m + 3)"
    by (simp only: of_nat_mult of_nat_numeral)
  have "0 < real (m + 1) * real (2 * m + 3)"
    by (simp del: of_nat_add of_nat_Suc)
  then have "25 * real (2 * m + 1) / (real (m + 1) * real (2 * m + 3)) \<le> 1"
    using r by (simp only: divide_le_eq_1_pos)
  then have "erf_abs5 m * (25 * real (2 * m + 1) / (real (m + 1) * real (2 * m + 3))) \<le> erf_abs5 m * 1"
    by (intro mult_left_mono erf_abs5_nonneg)
  then show ?thesis
    by (simp add: erf_abs5_Suc del: of_nat_add of_nat_Suc)
qed

lemma erf_series_lower: "(\<Sum>i<96. erf_term 5 i) \<le> suminf (erf_term 5)"
proof -
  let ?a = "\<lambda>k. erf_abs5 (k + 26)"
  have "erf_term 5 \<longlonglongrightarrow> 0"
    using erf_term_summable by (rule summable_LIMSEQ_zero)
  then have "(\<lambda>n. \<bar>erf_term 5 n\<bar>) \<longlonglongrightarrow> 0"
    by (rule tendsto_rabs_zero)
  then have "erf_abs5 \<longlonglongrightarrow> 0"
    by (simp add: erf_term_5 abs_mult erf_abs5_nonneg)
  then have zero: "?a \<longlonglongrightarrow> 0"
    by (rule LIMSEQ_ignore_initial_segment)
  have pos: "0 \<le> ?a n" for n
    by (rule erf_abs5_nonneg)
  have mono: "?a (Suc n) \<le> ?a n" for n
    using erf_abs5_decreasing [of "n + 26"] by simp
  have shift: "(- 1) ^ i * ?a i = erf_term 5 (i + 26)" for i
    by (simp add: erf_term_5 power_add)
  from summable_Leibniz'(2) [OF zero pos mono, of 35]
  have "(\<Sum>i<70. erf_term 5 (i + 26)) \<le> (\<Sum>i. erf_term 5 (i + 26))"
    by (simp add: shift)
  moreover have "suminf (erf_term 5) = (\<Sum>i. erf_term 5 (i + 26)) + (\<Sum>i<26. erf_term 5 i)"
    using erf_term_summable by (rule suminf_split_initial_segment)
  moreover have "(\<Sum>i<96. erf_term 5 i) = (\<Sum>i<26. erf_term 5 i) + (\<Sum>i<70. erf_term 5 (i + 26))"
  proof -
    have "sum (erf_term 5) {0..<96} = sum (erf_term 5) {0..<26} + sum (erf_term 5) {26..<96}"
      by (rule sum.atLeastLessThan_concat [symmetric]) simp_all
    moreover have "sum (erf_term 5) {0 + 26..<70 + 26} = (\<Sum>i = 0..<70. erf_term 5 (i + 26))"
      by (rule sum.shift_bounds_nat_ivl)
    ultimately show ?thesis
      by (simp add: lessThan_atLeast0)
  qed
  ultimately show ?thesis by simp
qed

lemma alt_bounds_sound:
  assumes "0 < D"
    and "real_of_int lo \<le> D * erf_abs5 m"
    and "D * erf_abs5 m \<le> real_of_int hi"
  shows "real_of_int (fst (alt_bounds n m lo hi)) \<le> D * (\<Sum>k<n. (- 1) ^ k * erf_abs5 (m + k))
       \<and> D * (\<Sum>k<n. (- 1) ^ k * erf_abs5 (m + k)) \<le> real_of_int (snd (alt_bounds n m lo hi))"
  using assms(2,3)
proof (induction n arbitrary: m lo hi)
  case 0
  then show ?case by simp
next
  case (Suc n)
  let ?c = "25 * (2 * int m + 1)"
  let ?d = "(int m + 1) * (2 * int m + 3)"
  let ?lo = "lo * ?c div ?d"
  let ?hi = "- ((- (hi * ?c)) div ?d)"
  have d: "0 < real_of_int ?d" and c: "0 \<le> real_of_int ?c"
    by simp_all
  have "real_of_int ?c = 25 * real (2 * m + 1)" "real_of_int ?d = real (m + 1) * real (2 * m + 3)"
    by simp_all
  then have next_term: "D * erf_abs5 (Suc m) = D * erf_abs5 m * real_of_int ?c / real_of_int ?d"
    by (simp only: erf_abs5_Suc times_divide_eq_right mult.assoc)
  have "real_of_int ?lo \<le> real_of_int (lo * ?c) / real_of_int ?d"
    by (rule real_of_int_div4)
  also have "\<dots> = real_of_int lo * real_of_int ?c / real_of_int ?d"
    by simp
  also have "\<dots> \<le> D * erf_abs5 m * real_of_int ?c / real_of_int ?d"
    using Suc.prems(1) c d by (intro divide_right_mono mult_right_mono) simp_all
  finally have lo: "real_of_int ?lo \<le> D * erf_abs5 (Suc m)"
    by (simp only: next_term)
  have "real_of_int ((- (hi * ?c)) div ?d) \<le> real_of_int (- (hi * ?c)) / real_of_int ?d"
    by (rule real_of_int_div4)
  then have "real_of_int hi * real_of_int ?c / real_of_int ?d \<le> real_of_int ?hi"
    by simp
  moreover have "D * erf_abs5 m * real_of_int ?c / real_of_int ?d
      \<le> real_of_int hi * real_of_int ?c / real_of_int ?d"
    using Suc.prems(2) c d by (intro divide_right_mono mult_right_mono) simp_all
  ultimately have hi: "D * erf_abs5 (Suc m) \<le> real_of_int ?hi"
    by (simp only: next_term)
  from Suc.IH [OF lo hi]
  have l: "real_of_int (fst (alt_bounds n (Suc m) ?lo ?hi)) \<le> D * (\<Sum>k<n. (- 1) ^ k * erf_abs5 (Suc m + k))"
    and u: "D * (\<Sum>k<n. (- 1) ^ k * erf_abs5 (Suc m + k)) \<le> real_of_int (snd (alt_bounds n (Suc m) ?lo ?hi))"
    by simp_all
  have split: "(\<Sum>k<Suc n. (- 1) ^ k * erf_abs5 (m + k))
      = erf_abs5 m - (\<Sum>k<n. (- 1) ^ k * erf_abs5 (Suc m + k))"
    by (simp add: sum.lessThan_Suc_shift sum_negf [symmetric] del: sum.lessThan_Suc)
  have fst_eq: "fst (alt_bounds (Suc n) m lo hi) = lo - snd (alt_bounds n (Suc m) ?lo ?hi)"
    and snd_eq: "snd (alt_bounds (Suc n) m lo hi) = hi - fst (alt_bounds n (Suc m) ?lo ?hi)"
    by (simp_all add: Let_def)
  show ?case
    unfolding split fst_eq snd_eq using l u Suc.prems
    by (simp add: algebra_simps)
qed

lemma alt_bounds_96:
  "886226925451 * 10 ^ 18 \<le> fst (alt_bounds 96 0 (5 * 10 ^ 30) (5 * 10 ^ 30))"
  by code_simp

lemma erf_partial_sum: "886226925451 / 10 ^ 12 \<le> (\<Sum>i<96. erf_term 5 i)"
proof -
  have "erf_abs5 0 = 5"
    by (simp add: erf_abs5_def)
  then have "real_of_int (fst (alt_bounds 96 0 (5 * 10 ^ 30) (5 * 10 ^ 30)))
      \<le> 10 ^ 30 * (\<Sum>k<96. (- 1) ^ k * erf_abs5 (0 + k))"
    by (intro conjunct1 [OF alt_bounds_sound]) simp_all
  moreover have "real_of_int (886226925451 * 10 ^ 18)
      \<le> real_of_int (fst (alt_bounds 96 0 (5 * 10 ^ 30) (5 * 10 ^ 30)))"
    using alt_bounds_96 by (simp only: of_int_le_iff)
  ultimately have "886226925451 * 10 ^ 18 \<le> 10 ^ 30 * (\<Sum>i<96. erf_term 5 i)"
    by (simp add: erf_term_5)
  then show ?thesis
    by (simp add: field_simps)
qed

text \<open>An upper bound of \<open>pi\<close> from Machin's formula turns the bound of the series into a
  bound of \<open>erf 5\<close>, and monotonicity carries it to \<open>22 / sqrt 2\<close>.\<close>

lemma arctan_series_bounds:
  assumes "0 \<le> x" and "x \<le> 1"
  shows "(\<Sum>i<2 * n. (- 1) ^ i * (1 / real (i * 2 + 1) * x ^ (i * 2 + 1))) \<le> arctan x"
    and "arctan x \<le> (\<Sum>i<2 * n + 1. (- 1) ^ i * (1 / real (i * 2 + 1) * x ^ (i * 2 + 1)))"
proof -
  let ?a = "\<lambda>n. 1 / real (n * 2 + 1) * x ^ (n * 2 + 1)"
  have abs: "\<bar>x\<bar> \<le> 1"
    using assms by simp
  have zero: "?a \<longlonglongrightarrow> 0"
    using abs by (rule zeroseq_arctan_series)
  have pos: "0 \<le> ?a n" for n
    using assms by simp
  have mono: "?a (Suc n) \<le> ?a n" for n
  proof -
    have "x ^ (Suc n * 2 + 1) \<le> x ^ (n * 2 + 1)"
      using assms by (intro power_decreasing) simp_all
    moreover have "1 / real (Suc n * 2 + 1) \<le> 1 / real (n * 2 + 1)"
      by (intro divide_left_mono) simp_all
    ultimately show ?thesis
      using assms by (intro mult_mono) simp_all
  qed
  have sum: "arctan x = (\<Sum>i. (- 1) ^ i * ?a i)"
    using abs by (rule arctan_series)
  show "(\<Sum>i<2 * n. (- 1) ^ i * ?a i) \<le> arctan x"
    unfolding sum by (rule summable_Leibniz'(2) [OF zero pos mono])
  show "arctan x \<le> (\<Sum>i<2 * n + 1. (- 1) ^ i * ?a i)"
    unfolding sum by (rule summable_Leibniz'(4) [OF zero pos mono])
qed

lemma pi_upper: "pi \<le> 31415926536 / 10 ^ 10"
proof -
  have u: "arctan (1 / 5) \<le> (\<Sum>i<2 * 4 + 1. (- 1) ^ i * (1 / real (i * 2 + 1) * (1 / 5) ^ (i * 2 + 1)))"
    by (rule arctan_series_bounds) simp_all
  have l: "(\<Sum>i<2 * 1. (- 1) ^ i * (1 / real (i * 2 + 1) * (1 / 239) ^ (i * 2 + 1))) \<le> arctan (1 / 239)"
    by (rule arctan_series_bounds) simp_all
  have "pi = 16 * arctan (1 / 5) - 4 * arctan (1 / 239)"
    using machin by simp
  also have "\<dots> \<le> 16 * (\<Sum>i<2 * 4 + 1. (- 1) ^ i * (1 / real (i * 2 + 1) * (1 / 5) ^ (i * 2 + 1)))
      - 4 * (\<Sum>i<2 * 1. (- 1) ^ i * (1 / real (i * 2 + 1) * (1 / 239) ^ (i * 2 + 1)))"
    using u l by simp
  also have "\<dots> \<le> 31415926536 / 10 ^ 10"
    by (simp add: lessThan_nat_numeral lessThan_Suc power_divide)
  finally show ?thesis .
qed

lemma erf_5_lower: "1 - 1 / 10 ^ 11 \<le> erf 5"
proof -
  let ?L = "886226925451 / 10 ^ 12 :: real"
  let ?e = "1 - 1 / 10 ^ 11 :: real"
  have s: "?L \<le> suminf (erf_term 5)"
    using erf_partial_sum erf_series_lower by (rule order_trans)
  have "pi \<le> (2 * ?L / ?e)\<^sup>2"
    using pi_upper by (rule order_trans) (simp add: power2_eq_square)
  then have "sqrt pi \<le> 2 * ?L / ?e"
    by (intro real_le_lsqrt) simp_all
  then have "?e * sqrt pi \<le> 2 * ?L"
    by (simp add: field_simps)
  also have "\<dots> \<le> 2 * suminf (erf_term 5)"
    using s by simp
  finally have "?e \<le> 2 * suminf (erf_term 5) / sqrt pi"
    by (simp add: field_simps)
  then show ?thesis
    by (simp add: erf_sum)
qed

lemma erf_tail: "1 - (1 + erf (22 / sqrt 2)) / 2 < 1 / 10 ^ 11"
proof -
  have "sqrt 2 \<le> 2"
    by (intro real_le_lsqrt) simp_all
  then have "5 \<le> 22 / sqrt 2"
    by (simp add: field_simps)
  then have "erf 5 \<le> erf (22 / sqrt 2)"
    by (rule erf_mono)
  with erf_5_lower have "1 - 1 / 10 ^ 11 \<le> erf (22 / sqrt 2)"
    by (rule order_trans)
  then show ?thesis
    by simp
qed

lemma sqrt_25: "sqrt 25 = 5"
  by (rule real_sqrt_unique) simp_all

lemma mean_stdev_5_10_15: "mean [5, 10, 15] = Inr 10" "stdev [5, 10, 15] = Inr 5"
  by (simp_all add: mean_def stdev_def sqrt_25)

lemma cdf_formula:
  assumes "stdev deltas = Inr s" and "0 < s"
  shows "cdf m deltas = Inr ((1 + erf ((120 - m) / (s * sqrt 2))) / 2)"
  using assms by (simp add: cdf_def)

text \<open>
  Claim C7, as the code has it. For every delta series with mean \<open>m\<close> and standard deviation
  \<open>s > 0\<close>, the value of \<open>cdf\<close> in the fourth cell is \<open>(1 + erf ((120 - m) / (s * sqrt 2))) / 2\<close>,
  the standard normal distribution function at \<open>(120 - m) / s\<close>, and the tail probability
  that the cell holds when it ends is one minus that. For mean 10 and standard deviation 5
  the threshold is 22 standard deviations away, and the tail probability is below
  \<open>10\<^sup>-\<^sup>1\<^sup>1\<close>. Floats are modelled by real numbers.
\<close>

theorem normal_tail_probability:
  assumes "mean deltas = Inr m" and "stdev deltas = Inr s" and "0 < s"
  shows "cdf m deltas = Inr ((1 + erf ((120 - m) / (s * sqrt 2))) / 2)
     \<and> cdf m deltas = Inr (std_normal_cdf ((120 - m) / s))
     \<and> (time_delta_statistics deltas = Inr st \<longrightarrow>
          normal_prob st = 1 - (1 + erf ((120 - m) / (s * sqrt 2))) / 2
          \<and> normal_prob st = 1 - std_normal_cdf ((120 - m) / s))
     \<and> 1 - std_normal_cdf ((120 - 10) / 5) < 1 / 10 ^ 11"
proof (intro conjI impI)
  show c: "cdf m deltas = Inr ((1 + erf ((120 - m) / (s * sqrt 2))) / 2)"
    using assms(2,3) by (rule cdf_formula)
  show "cdf m deltas = Inr (std_normal_cdf ((120 - m) / s))"
    using c by (simp add: std_normal_cdf_def)
  show "1 - std_normal_cdf ((120 - 10) / 5) < 1 / 10 ^ 11"
    using erf_tail by (simp add: std_normal_cdf_def)
  assume r: "time_delta_statistics deltas = Inr st"
  then show p: "normal_prob st = 1 - (1 + erf ((120 - m) / (s * sqrt 2))) / 2"
    using assms(1) c
    by (auto simp: time_delta_statistics_def Let_def split: sum.splits if_splits)
  then show "normal_prob st = 1 - std_normal_cdf ((120 - m) / s)"
    by (simp add: std_normal_cdf_def)
qed

theorem normal_tail_probability_witness:
  "cdf 10 [5, 10, 15] = Inr ((1 + erf ((120 - 10) / (5 * sqrt 2))) / 2)
   \<and> normal_prob \<lparr>normal_prob = 1 / 2, actual_prob = 1 / 2, normal_every = 2, actual_every = 2,
          days_between_long_blocks = 4\<rparr>
      = 1 - (1 + erf ((120 - 120) / (sqrt 7200 * sqrt 2))) / 2"
proof -
  have m: "mean [60, 180] = Inr 120" and s: "stdev [60, 180] = Inr (sqrt 7200)"
    by (simp_all add: mean_def stdev_def)
  have pos: "0 < sqrt 7200" and pos5: "(0::real) < 5"
    by simp_all
  from normal_tail_probability [OF mean_stdev_5_10_15 pos5]
  have a: "cdf 10 [5, 10, 15] = Inr ((1 + erf ((120 - 10) / (5 * sqrt 2))) / 2)"
    by (rule conjunct1)
  from normal_tail_probability [OF m s pos, where st="\<lparr>normal_prob = 1 / 2, actual_prob = 1 / 2,
      normal_every = 2, actual_every = 2, days_between_long_blocks = 4\<rparr>"] stats_60_180
  have b: "normal_prob \<lparr>normal_prob = 1 / 2, actual_prob = 1 / 2, normal_every = 2, actual_every = 2,
          days_between_long_blocks = 4\<rparr>
      = 1 - (1 + erf ((120 - 120) / (sqrt 7200 * sqrt 2))) / 2"
    by blast
  from a b show ?thesis ..
qed

text \<open>Against claim C7 as stated: the series \<open>[5, 10, 15]\<close> has mean 10 and standard deviation
  5, and its tail probability is below \<open>10\<^sup>-\<^sup>1\<^sup>1\<close>, not about \<open>1.28 * 10\<^sup>-\<^sup>9\<close>.\<close>

theorem reference_value_counterexample:
  "mean [5, 10, 15] = Inr 10
   \<and> stdev [5, 10, 15] = Inr 5
   \<and> cdf 10 [5, 10, 15] = Inr ((1 + erf (22 / sqrt 2)) / 2)
   \<and> 1 - (1 + erf (22 / sqrt 2)) / 2 < 1 / 10 ^ 11"
  using mean_stdev_5_10_15 erf_tail cdf_formula [OF mean_stdev_5_10_15(2), of 10]
  by simp

section \<open>The retry loops\<close>


lemma fetch_block_first_success:
  assumes "\<forall>t\<in>set failed. \<exists>r. get (BlockHeight k) t = Inr r \<and> status_code r \<noteq> 200"
  shows "fetch_block get k (failed @ rest) blocks_to_add = fetch_block get k rest blocks_to_add"
  using assms by (induction failed) auto

lemma fetch_day_appends:
  "fst (fetch_day get t tries out) = out \<or> (\<exists>page. fst (fetch_day get t tries out) = out @ [page])"
  by (induction tries) (auto simp: dump_def split: sum.splits)

lemma fetch_block_appends:
  "fetch_block get k tries acc = Inr res \<Longrightarrow> \<exists>added. res = acc @ added"
  by (induction tries) (auto split: sum.splits if_splits)

lemma fetch_missing_appends:
  "fetch_missing get ks acc = Inr res \<Longrightarrow> \<exists>added. res = acc @ added"
proof (induction ks arbitrary: acc)
  case Nil
  then show ?case by simp
next
  case (Cons k ks)
  then obtain mid where m: "fetch_block get k [0..<5] acc = Inr mid"
    and r: "fetch_missing get ks mid = Inr res"
    by (auto split: sum.splits)
  from fetch_block_appends [OF m] Cons.IH [OF r] show ?case
    by auto
qed

text \<open>When every attempt returns, a retry loop finds the first attempt that succeeds.\<close>

lemma fetch_day_find:
  assumes "\<forall>tries\<in>set ts. \<exists>r. get (Blocks t) tries = Inr r"
  shows "fetch_day get t ts out =
           (case find (succeeded get (Blocks t)) ts of
              None \<Rightarrow> (out, None)
            | Some tries \<Rightarrow>
                (case get (Blocks t) tries of
                   Inl e \<Rightarrow> (out, Some e)
                 | Inr r \<Rightarrow> (out @ [json r], None)))"
  using assms by (induction ts) (auto simp: succeeded_def dump_def)

lemma fetch_block_find:
  assumes "\<forall>tries\<in>set ts. \<exists>r. get (BlockHeight k) tries = Inr r"
  shows "fetch_block get k ts acc =
           (case find (succeeded get (BlockHeight k)) ts of
              None \<Rightarrow> Inr acc
            | Some tries \<Rightarrow>
                (case get (BlockHeight k) tries of
                   Inl e \<Rightarrow> Inl e
                 | Inr r \<Rightarrow> Inr (acc @ json r)))"
  using assms by (induction ts) (auto simp: succeeded_def)

lemma find_succeeded:
  assumes "find (succeeded get u) ts = Some tries"
  shows "\<exists>r. get u tries = Inr r \<and> status_code r = 200"
proof -
  from assms have "succeeded get u tries"
    by (auto simp: find_Some_iff)
  then show ?thesis
    by (auto simp: succeeded_def split: sum.splits)
qed

lemma fetch_day_first_page:
  assumes "answers get (Blocks t)"
  shows "fetch_day get t [0..<5] out =
           (out @ (case first_page get (Blocks t) of None \<Rightarrow> [] | Some p \<Rightarrow> [p]), None)"
proof -
  have a: "\<forall>tries\<in>set [0..<5]. \<exists>r. get (Blocks t) tries = Inr r"
    using assms by (simp add: answers_def)
  show ?thesis
    unfolding fetch_day_find [where get=get and t=t, OF a] first_page_def
    by (auto split: option.splits sum.splits dest: find_succeeded)
qed

lemma fetch_block_recovered:
  assumes "answers get (BlockHeight k)"
  shows "fetch_block get k [0..<5] acc = Inr (acc @ recovered get k)"
proof -
  have a: "\<forall>tries\<in>set [0..<5]. \<exists>r. get (BlockHeight k) tries = Inr r"
    using assms by (simp add: answers_def)
  show ?thesis
    unfolding fetch_block_find [where get=get and k=k, OF a] recovered_def first_page_def
    by (auto split: option.splits sum.splits dest: find_succeeded)
qed

lemma fetch_days_pages:
  assumes "\<forall>t\<in>set ts. answers get (Blocks t)"
  shows "fetch_days get ts out = (out @ List.map_filter (\<lambda>t. first_page get (Blocks t)) ts, None)"
  using assms
proof (induction ts arbitrary: out)
  case Nil
  then show ?case by (simp add: List.map_filter_simps)
next
  case (Cons t ts)
  then show ?case
    by (simp add: fetch_day_first_page List.map_filter_simps split: option.splits)
qed

lemma fetch_days_bound:
  "\<exists>pages. fst (fetch_days get ts out) = out @ pages \<and> length pages \<le> length ts"
proof (induction ts arbitrary: out)
  case Nil
  then show ?case by simp
next
  case (Cons t ts)
  obtain out' err where d: "fetch_day get t [0..<5] out = (out', err)"
    by (cases "fetch_day get t [0..<5] out")
  from fetch_day_appends [of get t "[0..<5]" out] d
  obtain ps where ps: "out' = out @ ps" "length ps \<le> 1"
    by auto
  show ?case
  proof (cases err)
    case None
    from Cons.IH [of out'] obtain qs where "fst (fetch_days get ts out') = out' @ qs"
      "length qs \<le> length ts"
      by blast
    then show ?thesis
      using d None ps by (intro exI [of _ "ps @ qs"]) simp
  next
    case (Some e)
    then show ?thesis
      using d ps by (intro exI [of _ ps]) simp
  qed
qed

lemma fetch_missing_recovered:
  assumes "\<forall>k\<in>set ks. answers get (BlockHeight k)"
  shows "fetch_missing get ks acc = Inr (acc @ concat (map (recovered get) ks))"
  using assms by (induction ks arbitrary: acc) (simp_all add: fetch_block_recovered)

lemma recovered_from_response:
  assumes "rcd \<in> set (recovered get k)"
  shows "\<exists>tries<5. \<exists>r. get (BlockHeight k) tries = Inr r \<and> status_code r = 200 \<and> rcd \<in> set (json r)"
proof -
  from assms obtain tries r where f: "find (succeeded get (BlockHeight k)) [0..<5] = Some tries"
    and g: "get (BlockHeight k) tries = Inr r" and m: "rcd \<in> set (json r)"
    by (auto simp: recovered_def first_page_def split: option.splits sum.splits)
  from f have "tries < 5" "succeeded get (BlockHeight k) tries"
    by (auto simp: find_Some_iff)
  then show ?thesis
    using g m by (auto simp: succeeded_def)
qed

text \<open>A retry loop that ends without an exception has found the first attempt that succeeds,
  whatever the attempts after it would have returned.\<close>

lemma fetch_day_completed:
  assumes "fetch_day get t ts out = (out', None)"
  shows "out' = out @ (case find (succeeded get (Blocks t)) ts of
                         None \<Rightarrow> []
                       | Some tries \<Rightarrow>
                           (case get (Blocks t) tries of Inl e \<Rightarrow> [] | Inr r \<Rightarrow> [json r]))"
  using assms by (induction ts) (auto simp: succeeded_def dump_def split: sum.splits if_splits)

lemma fetch_block_completed:
  assumes "fetch_block get k ts acc = Inr res"
  shows "res = acc @ (case find (succeeded get (BlockHeight k)) ts of
                        None \<Rightarrow> []
                      | Some tries \<Rightarrow>
                          (case get (BlockHeight k) tries of Inl e \<Rightarrow> [] | Inr r \<Rightarrow> json r))"
  using assms by (induction ts) (auto simp: succeeded_def split: sum.splits if_splits)

lemma fetch_days_completed:
  assumes "fetch_days get ts out = (out', None)"
  shows "out' = out @ List.map_filter (\<lambda>t. first_page get (Blocks t)) ts"
  using assms
proof (induction ts arbitrary: out)
  case Nil
  then show ?case by (simp add: List.map_filter_simps)
next
  case (Cons t ts)
  then obtain mid where d: "fetch_day get t [0..<5] out = (mid, None)"
    and r: "fetch_days get ts mid = (out', None)"
    by (auto split: prod.splits option.splits)
  from fetch_day_completed [OF d]
  have "mid = out @ (case first_page get (Blocks t) of None \<Rightarrow> [] | Some p \<Rightarrow> [p])"
    by (auto simp: first_page_def split: option.splits sum.splits)
  with Cons.IH [OF r] show ?case
    by (simp add: List.map_filter_simps split: option.splits)
qed

lemma fetch_missing_completed:
  assumes "fetch_missing get ks acc = Inr res"
  shows "res = acc @ concat (map (recovered get) ks)"
  using assms
proof (induction ks arbitrary: acc)
  case Nil
  then show ?case by simp
next
  case (Cons k ks)
  then obtain mid where b: "fetch_block get k [0..<5] acc = Inr mid"
    and r: "fetch_missing get ks mid = Inr res"
    by (auto split: sum.splits)
  from fetch_block_completed [OF b] have "mid = acc @ recovered get k"
    by (auto simp: recovered_def first_page_def split: option.splits sum.splits)
  with Cons.IH [OF r] show ?case
    by simp
qed

section \<open>The second cell\<close>

lemma project_core:
  assumes "core_fields \<subseteq> dom record"
  shows "project record = Inr (record |` core_fields)"
proof -
  from assms obtain h g t i where f: "record ''hash'' = Some h" "record ''height'' = Some g"
    "record ''time'' = Some t" "record ''block_index'' = Some i"
    by (auto simp: core_fields_def dom_def)
  have "[''hash'' \<mapsto> h, ''height'' \<mapsto> g, ''time'' \<mapsto> t, ''block_index'' \<mapsto> i] = record |` core_fields"
    by (rule ext) (simp add: restrict_map_def core_fields_def f)
  then show ?thesis
    by (simp add: project_def getitem_def f)
qed

lemma mapM_project:
  "\<forall>record\<in>set rs. core_fields \<subseteq> dom record \<Longrightarrow>
     mapM project rs = Inr (map (\<lambda>record. record |` core_fields) rs)"
  by (rule mapM_map) (simp add: project_core)

lemma reconciler_result:
  assumes "missing_blocks (read_blocks fl) = Inr missing"
    and "fetch_missing get (iter missing) [] = Inr blocks_to_add"
    and "\<forall>record\<in>set blocks_to_add. core_fields \<subseteq> dom record"
  shows "reconciler iter get fl =
           Inr [read_blocks fl @ map (\<lambda>record. record |` core_fields) blocks_to_add]"
  using assms by (simp add: reconciler_def Let_def mapM_project dump_def open_wb_def)

lemma reconciler_rewrites:
  "reconciler iter get fl = Inr fl' \<Longrightarrow> \<exists>added. fl' = [read_blocks fl @ added]"
  by (auto simp: reconciler_def Let_def dump_def open_wb_def split: sum.splits)

lemma project_Inr:
  assumes "project rcd = Inr p"
  shows "core_fields \<subseteq> dom rcd"
  using assms
  by (auto simp: project_def getitem_def core_fields_def split: option.splits)

lemma mapM_project_Inr:
  assumes "mapM project rs = Inr ps"
  shows "ps = map (\<lambda>rcd. rcd |` core_fields) rs"
  using assms
proof (induction rs arbitrary: ps)
  case Nil
  then show ?case by simp
next
  case (Cons r rs)
  then obtain p qs where p: "project r = Inr p" and q: "mapM project rs = Inr qs" and e: "ps = p # qs"
    by (auto split: sum.splits)
  from project_core [OF project_Inr [OF p]] p have "p = r |` core_fields"
    by simp
  with Cons.IH [OF q] e show ?case by simp
qed

lemma reconciler_Inr:
  assumes "reconciler iter get fl = Inr fl'"
  shows "\<exists>missing blocks_to_add.
           missing_blocks (read_blocks fl) = Inr missing
           \<and> fetch_missing get (iter missing) [] = Inr blocks_to_add
           \<and> fl' = [read_blocks fl @ map (\<lambda>rcd. rcd |` core_fields) blocks_to_add]"
proof -
  from assms obtain missing blocks_to_add projected
    where m: "missing_blocks (read_blocks fl) = Inr missing"
      and f: "fetch_missing get (iter missing) [] = Inr blocks_to_add"
      and p: "mapM project blocks_to_add = Inr projected"
      and r: "fl' = [read_blocks fl @ projected]"
    by (auto simp: reconciler_def Let_def dump_def open_wb_def split: sum.splits)
  from mapM_project_Inr [OF p] m f r show ?thesis
    by blast
qed


lemma missing_blocks_finite: "missing_blocks blocks = Inr missing \<Longrightarrow> finite missing"
  by (auto simp: missing_blocks_def Let_def split: sum.splits if_splits)

lemma upt5_split: "tries < 5 \<Longrightarrow> [0..<5] = [0..<tries] @ tries # [Suc tries..<5]"
proof -
  assume t: "tries < 5"
  have "[0..<tries + (5 - tries)] = [0..<tries] @ [tries..<tries + (5 - tries)]"
    by (rule upt_add_eq_append) simp
  then show ?thesis
    using t by (simp add: upt_conv_Cons)
qed

lemma fetch_missing_kept:
  assumes "fetch_missing get ks acc = Inr res"
    and "block \<in> set ks"
    and "tries < 5"
    and "\<forall>t<tries. \<exists>r. get (BlockHeight block) t = Inr r \<and> status_code r \<noteq> 200"
    and "get (BlockHeight block) tries = Inr request"
    and "status_code request = 200"
  shows "set (json request) \<subseteq> set res"
  using assms(1,2)
proof (induction ks arbitrary: acc)
  case Nil
  then show ?case by simp
next
  case (Cons k ks)
  then obtain mid where m: "fetch_block get k [0..<5] acc = Inr mid"
    and r: "fetch_missing get ks mid = Inr res"
    by (auto split: sum.splits)
  show ?case
  proof (cases "block = k")
    case True
    have "\<forall>t\<in>set [0..<tries]. \<exists>r. get (BlockHeight k) t = Inr r \<and> status_code r \<noteq> 200"
      using assms(4) True by simp
    from fetch_block_first_success [where get=get and k=k and failed="[0..<tries]"
        and rest="tries # [Suc tries..<5]" and blocks_to_add=acc, OF this]
    have "fetch_block get k [0..<5] acc = Inr (acc @ json request)"
      using assms(3,5,6) True by (simp add: upt5_split [symmetric])
    then have "mid = acc @ json request"
      using m by simp
    moreover from fetch_missing_appends [OF r] obtain added where "res = mid @ added"
      by blast
    ultimately show ?thesis by auto
  next
    case False
    then have "block \<in> set ks"
      using Cons.prems(2) by simp
    from Cons.IH [OF r this] show ?thesis .
  qed
qed

text \<open>
  Claim C9. When the store is read, the missing indices are fetched and every recovered
  record has the four core fields, the second cell replaces the file by the single page of
  all blocks read followed by every recovered record cut down to exactly the fields
  \<open>hash\<close>, \<open>height\<close>, \<open>time\<close> and \<open>block_index\<close>, with the values unchanged. Every
  block of the first successful response for a missing index is among the recovered
  records, so blocks that share an index are all kept.
\<close>

theorem reconciler_projects_and_rewrites:
  assumes "missing_blocks (read_blocks fl) = Inr missing"
    and "fetch_missing get (iter missing) [] = Inr blocks_to_add"
    and "\<forall>record\<in>set blocks_to_add. core_fields \<subseteq> dom record"
  shows "reconciler iter get fl =
           Inr [read_blocks fl @ map (\<lambda>record. record |` core_fields) blocks_to_add]
     \<and> (\<forall>record\<in>set blocks_to_add.
           dom (record |` core_fields) = {''hash'', ''height'', ''time'', ''block_index''}
           \<and> (\<forall>k\<in>{''hash'', ''height'', ''time'', ''block_index''}. (record |` core_fields) k = record k))
     \<and> (\<forall>block\<in>set (iter missing). \<forall>tries<5. \<forall>request.
           (\<forall>t<tries. \<exists>r. get (BlockHeight block) t = Inr r \<and> status_code r \<noteq> 200)
           \<and> get (BlockHeight block) tries = Inr request \<and> status_code request = 200
           \<longrightarrow> set (json request) \<subseteq> set blocks_to_add)"
proof (intro conjI)
  show "reconciler iter get fl =
           Inr [read_blocks fl @ map (\<lambda>record. record |` core_fields) blocks_to_add]"
    using assms by (rule reconciler_result)
next
  show "\<forall>record\<in>set blocks_to_add.
           dom (record |` core_fields) = {''hash'', ''height'', ''time'', ''block_index''}
           \<and> (\<forall>k\<in>{''hash'', ''height'', ''time'', ''block_index''}. (record |` core_fields) k = record k)"
  proof
    fix rcd assume "rcd \<in> set blocks_to_add"
    then have "core_fields \<subseteq> dom rcd"
      using assms(3) by blast
    then have "dom (rcd |` core_fields) = core_fields"
      by auto
    then show "dom (rcd |` core_fields) = {''hash'', ''height'', ''time'', ''block_index''}
           \<and> (\<forall>k\<in>{''hash'', ''height'', ''time'', ''block_index''}. (rcd |` core_fields) k = rcd k)"
      by (simp add: core_fields_def)
  qed
next
  show "\<forall>block\<in>set (iter missing). \<forall>tries<5. \<forall>request.
           (\<forall>t<tries. \<exists>r. get (BlockHeight block) t = Inr r \<and> status_code r \<noteq> 200)
           \<and> get (BlockHeight block) tries = Inr request \<and> status_code request = 200
           \<longrightarrow> set (json request) \<subseteq> set blocks_to_add"
    using fetch_missing_kept [OF assms(2)] by blast
qed

lemma missing_example_013:
  "missing_blocks (read_blocks [[example_block 0 0, example_block 1 10], [example_block 3 30]]) = Inr {2}"
proof -
  have "{0..3} - {0, 1, 3} = {2::int}"
    by auto
  then show ?thesis
    by (simp add: missing_blocks_def block_indexes_def read_blocks_def getitem_def example_block_def)
qed

lemma fetch_two_at_height:
  "fetch_missing two_at_height [k] [] =
     Inr [(example_block 2 20)(''main_chain'' \<mapsto> IntV 1),
          (example_block 2 25)(''hash'' \<mapsto> StrV ''g'', ''main_chain'' \<mapsto> IntV 0)]"
  by (simp add: upt5 two_at_height_def)

lemma two_at_height_core:
  "\<forall>record\<in>set [(example_block 2 20)(''main_chain'' \<mapsto> IntV 1),
          (example_block 2 25)(''hash'' \<mapsto> StrV ''g'', ''main_chain'' \<mapsto> IntV 0)].
      core_fields \<subseteq> dom record"
  by (simp add: core_fields_def example_block_def)

lemma two_at_height_projected:
  "((example_block 2 20)(''main_chain'' \<mapsto> IntV 1)) |` core_fields = example_block 2 20"
  "((example_block 2 25)(''hash'' \<mapsto> StrV ''g'', ''main_chain'' \<mapsto> IntV 0)) |` core_fields
     = (example_block 2 25)(''hash'' \<mapsto> StrV ''g'')"
  by (rule ext, simp add: restrict_map_def core_fields_def example_block_def)+

theorem reconciler_projects_and_rewrites_witness:
  "reconciler sorted_list_of_set two_at_height [[example_block 0 0, example_block 1 10], [example_block 3 30]]
     = Inr [[example_block 0 0, example_block 1 10, example_block 3 30,
             example_block 2 20, (example_block 2 25)(''hash'' \<mapsto> StrV ''g'')]]"
proof -
  have f: "fetch_missing two_at_height (sorted_list_of_set {2}) [] =
     Inr [(example_block 2 20)(''main_chain'' \<mapsto> IntV 1),
          (example_block 2 25)(''hash'' \<mapsto> StrV ''g'', ''main_chain'' \<mapsto> IntV 0)]"
  proof -
    have "sorted_list_of_set {2::int} = [2]"
      by simp
    then show ?thesis
      by (simp only: fetch_two_at_height)
  qed
  from reconciler_projects_and_rewrites [where iter=sorted_list_of_set and get=two_at_height,
      OF missing_example_013 f two_at_height_core]
  have "reconciler sorted_list_of_set two_at_height
          [[example_block 0 0, example_block 1 10], [example_block 3 30]] =
        Inr [read_blocks [[example_block 0 0, example_block 1 10], [example_block 3 30]] @
             map (\<lambda>record. record |` core_fields)
               [(example_block 2 20)(''main_chain'' \<mapsto> IntV 1),
                (example_block 2 25)(''hash'' \<mapsto> StrV ''g'', ''main_chain'' \<mapsto> IntV 0)]]"
    by (rule conjunct1)
  then show ?thesis
    unfolding list.map two_at_height_projected by (simp add: read_blocks_def)
qed

section \<open>What the first two cells do to the file\<close>

lemma days_two: "days (start_time + 86400001) = [start_time, start_time + 86400000]"
  by (simp add: days_def py_range_def upt_rec)

lemma second_day_up_answers: "answers second_day_up u"
  by (simp add: answers_def second_day_up_def)

lemma second_day_up_pages:
  "first_page second_day_up (Blocks start_time) = None"
  "first_page second_day_up (Blocks (start_time + 86400000)) = Some [example_block 1 10]"
  by (simp_all add: first_page_def succeeded_def second_day_up_def upt5)

text \<open>
  Claim C3, as the code has it. The first cell opens the file for writing, which truncates
  it: what the cell leaves does not depend on what the file held before. When every attempt
  returns, the cell ends without an exception and the file it leaves is exactly the pages of
  the days that have one, in the order of the days; so is the file whenever the cell ends
  without an exception; in any case it holds at most one page per day. A single day leaves
  the file as it was or appends one page, and the loop over any days leaves what it found
  followed by at most one page per day. The second cell, when it completes, replaces the
  file by one page: the blocks it read, followed by the blocks that the upstream yields for
  the missing indices, in the order in which the set of missing indices is iterated, cut to
  the four core fields.
\<close>

theorem fetcher_truncates_then_appends:
  "fetcher get end_time fl = fetcher get end_time []
   \<and> ((\<forall>t\<in>set (days end_time). answers get (Blocks t)) \<longrightarrow>
        fetcher get end_time fl
          = (List.map_filter (\<lambda>t. first_page get (Blocks t)) (days end_time), None))
   \<and> (snd (fetcher get end_time fl) = None \<longrightarrow>
        fst (fetcher get end_time fl)
          = List.map_filter (\<lambda>t. first_page get (Blocks t)) (days end_time))
   \<and> length (fst (fetcher get end_time fl)) \<le> length (days end_time)
   \<and> (fst (fetch_day get t tries out) = out
        \<or> (\<exists>page. fst (fetch_day get t tries out) = out @ [page]))
   \<and> (\<exists>pages. fst (fetch_days get ts out) = out @ pages \<and> length pages \<le> length ts)
   \<and> (reconciler iter get fl = Inr fl' \<longrightarrow>
        (\<exists>missing.
           missing_blocks (read_blocks fl) = Inr missing
           \<and> fetch_missing get (iter missing) []
               = Inr (concat (map (recovered get) (iter missing)))
           \<and> fl' = [read_blocks fl @
                     map (\<lambda>rcd. rcd |` core_fields)
                       (concat (map (recovered get) (iter missing)))]))"
proof (intro conjI impI)
  show "fetcher get end_time fl = fetcher get end_time []"
    by (simp add: fetcher_def open_wb_def)
next
  assume "\<forall>t\<in>set (days end_time). answers get (Blocks t)"
  then show "fetcher get end_time fl
      = (List.map_filter (\<lambda>t. first_page get (Blocks t)) (days end_time), None)"
    using fetch_days_pages [of "days end_time" get "[]"]
    by (simp add: fetcher_def open_wb_def days_def)
next
  assume "snd (fetcher get end_time fl) = None"
  then have "fetch_days get (days end_time) [] = (fst (fetcher get end_time fl), None)"
    by (simp add: fetcher_def open_wb_def days_def prod_eq_iff)
  from fetch_days_completed [OF this]
  show "fst (fetcher get end_time fl)
          = List.map_filter (\<lambda>t. first_page get (Blocks t)) (days end_time)"
    by simp
next
  from fetch_days_bound [of get "days end_time" "[]"]
  show "length (fst (fetcher get end_time fl)) \<le> length (days end_time)"
    by (auto simp: fetcher_def open_wb_def days_def)
next
  show "fst (fetch_day get t tries out) = out
        \<or> (\<exists>page. fst (fetch_day get t tries out) = out @ [page])"
    by (rule fetch_day_appends)
next
  show "\<exists>pages. fst (fetch_days get ts out) = out @ pages \<and> length pages \<le> length ts"
    by (rule fetch_days_bound)
next
  assume "reconciler iter get fl = Inr fl'"
  from reconciler_Inr [OF this] obtain missing blocks_to_add
    where m: "missing_blocks (read_blocks fl) = Inr missing"
      and f: "fetch_missing get (iter missing) [] = Inr blocks_to_add"
      and r: "fl' = [read_blocks fl @ map (\<lambda>rcd. rcd |` core_fields) blocks_to_add]"
    by blast
  from fetch_missing_completed [OF f]
  have "blocks_to_add = concat (map (recovered get) (iter missing))"
    by simp
  with m f r show "\<exists>missing.
           missing_blocks (read_blocks fl) = Inr missing
           \<and> fetch_missing get (iter missing) []
               = Inr (concat (map (recovered get) (iter missing)))
           \<and> fl' = [read_blocks fl @
                     map (\<lambda>rcd. rcd |` core_fields)
                       (concat (map (recovered get) (iter missing)))]"
    by blast
qed

lemma two_at_height_answers: "answers two_at_height u"
  by (simp add: answers_def two_at_height_def)

lemma two_at_height_recovered:
  "recovered two_at_height k =
     [(example_block 2 20)(''main_chain'' \<mapsto> IntV 1),
      (example_block 2 25)(''hash'' \<mapsto> StrV ''g'', ''main_chain'' \<mapsto> IntV 0)]"
  by (simp add: recovered_def first_page_def succeeded_def two_at_height_def upt5)

lemma reconciler_example_013:
  "reconciler sorted_list_of_set two_at_height
     [[example_block 0 0, example_block 1 10], [example_block 3 30]]
   = Inr [read_blocks [[example_block 0 0, example_block 1 10], [example_block 3 30]] @
          map (\<lambda>rcd. rcd |` core_fields)
            [(example_block 2 20)(''main_chain'' \<mapsto> IntV 1),
             (example_block 2 25)(''hash'' \<mapsto> StrV ''g'', ''main_chain'' \<mapsto> IntV 0)]]"
proof -
  have "sorted_list_of_set {2::int} = [2]"
    by simp
  then have f: "fetch_missing two_at_height (sorted_list_of_set {2}) [] =
     Inr [(example_block 2 20)(''main_chain'' \<mapsto> IntV 1),
          (example_block 2 25)(''hash'' \<mapsto> StrV ''g'', ''main_chain'' \<mapsto> IntV 0)]"
    by (simp only: fetch_two_at_height)
  show ?thesis
    by (rule reconciler_result [where iter=sorted_list_of_set and get=two_at_height,
          OF missing_example_013 f two_at_height_core])
qed

theorem fetcher_truncates_then_appends_witness:
  "fetcher second_day_up (start_time + 86400001) [[example_block 0 0]]
     = ([[example_block 1 10]], None)
   \<and> reconciler sorted_list_of_set two_at_height
       [[example_block 0 0, example_block 1 10], [example_block 3 30]]
     = Inr [[example_block 0 0, example_block 1 10, example_block 3 30,
             example_block 2 20, (example_block 2 25)(''hash'' \<mapsto> StrV ''g'')]]
   \<and> concat (map (recovered two_at_height) (sorted_list_of_set {2}))
     = [(example_block 2 20)(''main_chain'' \<mapsto> IntV 1),
        (example_block 2 25)(''hash'' \<mapsto> StrV ''g'', ''main_chain'' \<mapsto> IntV 0)]"
proof -
  let ?fl = "[[example_block 0 0, example_block 1 10], [example_block 3 30]]"
  let ?fl' = "[read_blocks ?fl @
          map (\<lambda>rcd. rcd |` core_fields)
            [(example_block 2 20)(''main_chain'' \<mapsto> IntV 1),
             (example_block 2 25)(''hash'' \<mapsto> StrV ''g'', ''main_chain'' \<mapsto> IntV 0)]]"
  note inst = fetcher_truncates_then_appends [where get=second_day_up
      and end_time="start_time + 86400001" and fl="[[example_block 0 0]]"]
  have a: "\<forall>t\<in>set (days (start_time + 86400001)). answers second_day_up (Blocks t)"
    by (simp add: second_day_up_answers)
  from inst a have "fetcher second_day_up (start_time + 86400001) [[example_block 0 0]]
      = (List.map_filter (\<lambda>t. first_page second_day_up (Blocks t)) (days (start_time + 86400001)), None)"
    by blast
  then have one: "fetcher second_day_up (start_time + 86400001) [[example_block 0 0]]
     = ([[example_block 1 10]], None)"
    by (simp add: days_two List.map_filter_simps second_day_up_pages)
  have three: "concat (map (recovered two_at_height) (sorted_list_of_set {2}))
     = [(example_block 2 20)(''main_chain'' \<mapsto> IntV 1),
        (example_block 2 25)(''hash'' \<mapsto> StrV ''g'', ''main_chain'' \<mapsto> IntV 0)]"
    by (simp add: two_at_height_recovered)
  note inst2 = fetcher_truncates_then_appends [where iter=sorted_list_of_set and get=two_at_height
      and fl="?fl" and fl'="?fl'"]
  from inst2 reconciler_example_013 obtain missing
    where m: "missing_blocks (read_blocks ?fl) = Inr missing"
      and r: "?fl' = [read_blocks ?fl @ map (\<lambda>rcd. rcd |` core_fields)
                  (concat (map (recovered two_at_height) (sorted_list_of_set missing)))]"
    by blast
  from m missing_example_013 have "missing = {2}"
    by simp
  with reconciler_example_013 r
  have "reconciler sorted_list_of_set two_at_height ?fl
     = Inr [read_blocks ?fl @ map (\<lambda>rcd. rcd |` core_fields)
              (concat (map (recovered two_at_height) (sorted_list_of_set {2})))]"
    by simp
  then have two: "reconciler sorted_list_of_set two_at_height ?fl
     = Inr [[example_block 0 0, example_block 1 10, example_block 3 30,
             example_block 2 20, (example_block 2 25)(''hash'' \<mapsto> StrV ''g'')]]"
    unfolding three list.map two_at_height_projected
    by (simp add: read_blocks_def)
  from one two three show ?thesis
    by blast
qed

text \<open>Against claim C3 as stated: a block that the file holds before the first cell runs
  (here for one day, on which every attempt fails) is not in the file afterwards.\<close>

theorem fetcher_discards_counterexample:
  "example_block 0 0 \<in> set (read_blocks [[example_block 0 0]])
   \<and> example_block 0 0 \<notin> set (read_blocks (fst (fetcher unavailable (start_time + 1) [[example_block 0 0]])))"
  by (simp add: read_blocks_def fetcher_def open_wb_def py_range_def start_time_def upt5 unavailable_def)

section \<open>One fetch unit\<close>










section \<open>Running the second cell again\<close>

lemma nothing_new_run:
  assumes iter: "\<And>M. finite M \<Longrightarrow> set (iter M) = M"
    and m: "missing_blocks (read_blocks fl) = Inr missing"
    and n: "nothing_new get missing fl"
  shows "\<exists>fl'. reconciler iter get fl = Inr fl' \<and> store_indexes fl' = store_indexes fl"
proof -
  have s: "set (iter missing) = missing"
    using iter missing_blocks_finite [OF m] by blast
  have a: "\<forall>k\<in>set (iter missing). answers get (BlockHeight k)"
    using n unfolding s nothing_new_def answers_def by blast
  have f: "fetch_missing get (iter missing) [] = Inr (concat (map (recovered get) (iter missing)))"
    using fetch_missing_recovered [OF a, of "[]"] by simp
  have known: "core_fields \<subseteq> dom rcd \<and> rcd ''block_index'' \<in> store_indexes fl"
    if "rcd \<in> set (concat (map (recovered get) (iter missing)))" for rcd
  proof -
    from that obtain k where k: "k \<in> missing" and r: "rcd \<in> set (recovered get k)"
      using s by auto
    from recovered_from_response [OF r] obtain tries r' where "tries < 5"
      "get (BlockHeight k) tries = Inr r'" "status_code r' = 200" "rcd \<in> set (json r')"
      by blast
    with n k show ?thesis
      unfolding nothing_new_def by fastforce
  qed
  then have c: "\<forall>rcd\<in>set (concat (map (recovered get) (iter missing))). core_fields \<subseteq> dom rcd"
    by blast
  have r: "reconciler iter get fl =
      Inr [read_blocks fl @ map (\<lambda>rcd. rcd |` core_fields) (concat (map (recovered get) (iter missing)))]"
    using m f c by (rule reconciler_result)
  define added where "added = map (\<lambda>rcd. rcd |` core_fields) (concat (map (recovered get) (iter missing)))"
  have sub: "(\<lambda>block. block ''block_index'') ` set added \<subseteq> store_indexes fl"
  proof
    fix v
    assume "v \<in> (\<lambda>block. block ''block_index'') ` set added"
    then obtain rcd where rcd: "rcd \<in> set (concat (map (recovered get) (iter missing)))"
      and v: "v = (rcd |` core_fields) ''block_index''"
      unfolding added_def by auto
    have "(rcd |` core_fields) ''block_index'' = rcd ''block_index''"
      by (simp add: core_fields_def)
    with known [OF rcd] v show "v \<in> store_indexes fl"
      by simp
  qed
  have "store_indexes [read_blocks fl @ added]
      = store_indexes fl \<union> (\<lambda>block. block ''block_index'') ` set added"
    by (simp add: store_indexes_def read_blocks_concat image_Un)
  with sub have "store_indexes [read_blocks fl @ added] = store_indexes fl"
    by blast
  then have "store_indexes
        [read_blocks fl @ map (\<lambda>rcd. rcd |` core_fields) (concat (map (recovered get) (iter missing)))]
      = store_indexes fl"
    by (simp only: added_def)
  with r show ?thesis
    by blast
qed

text \<open>
  Claim C4. Iterating over a set yields its elements. When no index is missing the second
  cell writes back the blocks it read, as one page, whatever the upstream answers, and a
  second run on the result writes the same file again. When the upstream has nothing new
  for the store, the cell completes and leaves the set of indices in the store as it was;
  so does a second run, after any first run that completed, when the upstream then has
  nothing new for what the first run left. Reading the rewritten file gives the blocks read
  before.
\<close>

theorem reconciler_idempotent:
  assumes "\<And>M. finite M \<Longrightarrow> set (iter M) = M"
  shows "(missing_blocks (read_blocks fl) = Inr {} \<longrightarrow>
            reconciler iter get fl = Inr [read_blocks fl]
            \<and> reconciler iter get' [read_blocks fl] = Inr [read_blocks fl])
     \<and> (missing_blocks (read_blocks fl) = Inr missing \<and> nothing_new get missing fl \<longrightarrow>
          (\<exists>fl'. reconciler iter get fl = Inr fl' \<and> store_indexes fl' = store_indexes fl))
     \<and> (reconciler iter get fl = Inr fl1 \<and> missing_blocks (read_blocks fl1) = Inr missing1
          \<and> nothing_new get2 missing1 fl1 \<longrightarrow>
          (\<exists>fl2. reconciler iter get2 fl1 = Inr fl2 \<and> store_indexes fl2 = store_indexes fl1))
     \<and> read_blocks [read_blocks fl] = read_blocks fl"
proof (intro conjI impI)
  have e: "iter {} = []"
    using assms [of "{}"] by simp
  have same: "read_blocks [read_blocks fl] = read_blocks fl"
    by (simp add: read_blocks_concat)
  show "read_blocks [read_blocks fl] = read_blocks fl"
    by (rule same)
  assume m: "missing_blocks (read_blocks fl) = Inr {}"
  have f: "fetch_missing g (iter {}) [] = Inr []" for g
    by (simp add: e)
  show "reconciler iter get fl = Inr [read_blocks fl]"
    using reconciler_result [where iter=iter and get=get, OF m f] by simp
  have m': "missing_blocks (read_blocks [read_blocks fl]) = Inr {}"
    using m by (simp add: same)
  show "reconciler iter get' [read_blocks fl] = Inr [read_blocks fl]"
    using reconciler_result [where iter=iter and get=get', OF m' f] by (simp add: same)
next
  assume "missing_blocks (read_blocks fl) = Inr missing \<and> nothing_new get missing fl"
  then show "\<exists>fl'. reconciler iter get fl = Inr fl' \<and> store_indexes fl' = store_indexes fl"
    using nothing_new_run [where iter=iter, OF assms] by blast
next
  assume "reconciler iter get fl = Inr fl1 \<and> missing_blocks (read_blocks fl1) = Inr missing1
          \<and> nothing_new get2 missing1 fl1"
  then show "\<exists>fl2. reconciler iter get2 fl1 = Inr fl2 \<and> store_indexes fl2 = store_indexes fl1"
    using nothing_new_run [where iter=iter, OF assms] by blast
qed

lemma missing_example_01:
  "missing_blocks (read_blocks [[example_block 0 0], [example_block 1 10]]) = Inr {}"
proof -
  have "{0..1} - {0, 1} = ({}::int set)"
    by auto
  then show ?thesis
    by (simp add: missing_blocks_def block_indexes_def read_blocks_def getitem_def example_block_def)
qed

lemma gap_store_missing: "missing_blocks (read_blocks gap_store) = Inr {1, 2}"
proof -
  have "{0..3} - {0, 3} = {1, 2::int}"
    by auto
  then show ?thesis
    by (simp add: gap_store_def missing_blocks_def block_indexes_def read_blocks_def getitem_def
        example_block_def)
qed

lemma gap_store_once_missing: "missing_blocks (read_blocks gap_store_once) = Inr {1}"
proof -
  have "{0..3} - {0, 3, 2} = {1::int}"
    by auto
  then show ?thesis
    by (simp add: gap_store_once_def missing_blocks_def block_indexes_def read_blocks_def
        getitem_def example_block_def)
qed

lemma gap_store_first_run:
  "reconciler sorted_list_of_set two_at_height gap_store = Inr gap_store_once"
proof -
  have "sorted_list_of_set {1, 2::int} = [1, 2]"
    by simp
  moreover have "\<forall>k\<in>set [1, 2::int]. answers two_at_height (BlockHeight k)"
    by (simp add: two_at_height_answers)
  ultimately have f: "fetch_missing two_at_height (sorted_list_of_set {1, 2}) [] =
      Inr ([(example_block 2 20)(''main_chain'' \<mapsto> IntV 1),
            (example_block 2 25)(''hash'' \<mapsto> StrV ''g'', ''main_chain'' \<mapsto> IntV 0)] @
           [(example_block 2 20)(''main_chain'' \<mapsto> IntV 1),
            (example_block 2 25)(''hash'' \<mapsto> StrV ''g'', ''main_chain'' \<mapsto> IntV 0)])"
    using fetch_missing_recovered [of "[1, 2]" two_at_height "[]"]
    by (simp add: two_at_height_recovered)
  have c: "\<forall>rcd\<in>set ([(example_block 2 20)(''main_chain'' \<mapsto> IntV 1),
            (example_block 2 25)(''hash'' \<mapsto> StrV ''g'', ''main_chain'' \<mapsto> IntV 0)] @
           [(example_block 2 20)(''main_chain'' \<mapsto> IntV 1),
            (example_block 2 25)(''hash'' \<mapsto> StrV ''g'', ''main_chain'' \<mapsto> IntV 0)]).
         core_fields \<subseteq> dom rcd"
    using two_at_height_core by simp
  from reconciler_result [where iter=sorted_list_of_set and get=two_at_height,
      OF gap_store_missing f c]
  show ?thesis
    unfolding map_append list.map two_at_height_projected
    by (simp add: gap_store_def gap_store_once_def read_blocks_def)
qed

lemma two_at_height_nothing_new: "nothing_new two_at_height {1} gap_store_once"
  by (simp add: nothing_new_def two_at_height_def store_indexes_def gap_store_once_def
      read_blocks_def core_fields_def example_block_def)

lemma unavailable_nothing_new: "nothing_new unavailable missing fl"
  by (simp add: nothing_new_def unavailable_def)

theorem reconciler_idempotent_witness:
  "reconciler sorted_list_of_set unavailable [[example_block 0 0], [example_block 1 10]]
     = Inr [[example_block 0 0, example_block 1 10]]
   \<and> reconciler sorted_list_of_set two_at_height [[example_block 0 0, example_block 1 10]]
     = Inr [[example_block 0 0, example_block 1 10]]
   \<and> (\<exists>fl'. reconciler sorted_list_of_set unavailable gap_store = Inr fl'
         \<and> store_indexes fl' = store_indexes gap_store)
   \<and> reconciler sorted_list_of_set two_at_height gap_store = Inr gap_store_once
   \<and> (\<exists>fl2. reconciler sorted_list_of_set two_at_height gap_store_once = Inr fl2
         \<and> store_indexes fl2 = store_indexes gap_store_once)"
proof -
  have it: "\<And>M::int set. finite M \<Longrightarrow> set (sorted_list_of_set M) = M"
    by simp
  have r: "read_blocks [[example_block 0 0], [example_block 1 10]] = [example_block 0 0, example_block 1 10]"
    by (simp add: read_blocks_def)
  note i1 = reconciler_idempotent [where iter=sorted_list_of_set and get=unavailable
      and get'=two_at_height and fl="[[example_block 0 0], [example_block 1 10]]", OF it]
  note i2 = reconciler_idempotent [where iter=sorted_list_of_set and get=unavailable
      and fl=gap_store and missing="{1, 2}", OF it]
  note i3 = reconciler_idempotent [where iter=sorted_list_of_set and get=two_at_height
      and fl=gap_store and ?fl1.0=gap_store_once and ?missing1.0="{1}"
      and ?get2.0=two_at_height, OF it]
  from i1 missing_example_01
  have a: "reconciler sorted_list_of_set unavailable [[example_block 0 0], [example_block 1 10]]
       = Inr [[example_block 0 0, example_block 1 10]]
     \<and> reconciler sorted_list_of_set two_at_height [[example_block 0 0, example_block 1 10]]
       = Inr [[example_block 0 0, example_block 1 10]]"
    unfolding r by blast
  from i2 gap_store_missing unavailable_nothing_new
  have b: "\<exists>fl'. reconciler sorted_list_of_set unavailable gap_store = Inr fl'
         \<and> store_indexes fl' = store_indexes gap_store"
    by blast
  from i3 gap_store_first_run gap_store_once_missing two_at_height_nothing_new
  have c: "\<exists>fl2. reconciler sorted_list_of_set two_at_height gap_store_once = Inr fl2
         \<and> store_indexes fl2 = store_indexes gap_store_once"
    by blast
  from a b c gap_store_first_run show ?thesis
    by (intro conjI) (elim conjE, assumption)+
qed

section \<open>The third cell\<close>

lemma insort_key_decorated:
  assumes "\<forall>p\<in>set ps. fst p = f (snd p)"
  shows "map snd (insort_key fst (f x, x) ps) = insort_key f x (map snd ps)"
  using assms by (induction ps) auto

lemma sort_key_decorated: "map snd (sort_key fst (zip (map f xs) xs)) = sort_key f xs"
proof (induction xs)
  case Nil
  then show ?case by simp
next
  case (Cons x xs)
  have "\<forall>p\<in>set (zip (map f xs) xs). fst p = f (snd p)"
    by (auto simp: set_zip)
  then have "\<forall>p\<in>set (sort_key fst (zip (map f xs) xs)). fst p = f (snd p)"
    by simp
  from insort_key_decorated [OF this] Cons show ?case
    by simp
qed

lemma sorted_blocks_int:
  assumes "\<forall>block\<in>set blocks. \<exists>i. block ''block_index'' = Some (IntV i)"
  shows "sorted_blocks blocks = Inr (sort_key index_of blocks)"
proof -
  let ?keys = "map (\<lambda>block. the (block ''block_index'')) blocks"
  have idx: "block_indexes blocks = Inr ?keys"
    using assms by (rule block_indexes_int)
  have ints: "list_all is_int ?keys"
    using assms by (auto simp: list_all_iff)
  have eq: "map the_int ?keys = map index_of blocks"
    using assms by (auto simp: index_of_def)
  have "sorted_blocks blocks = Inr (map snd (sort_key fst (zip (map the_int ?keys) blocks)))"
    unfolding sorted_blocks_def idx using ints by (simp del: map_map)
  then show ?thesis
    unfolding eq by (simp only: sort_key_decorated)
qed

lemma block_times_int:
  assumes "\<forall>block\<in>set bs. \<exists>t. block ''time'' = Some (IntV t)"
  shows "block_times bs = Inr (map (\<lambda>block. IntV (time_of block)) bs)"
  unfolding block_times_def
  by (rule mapM_map) (use assms in \<open>auto simp: getitem_def time_of_def\<close>)

lemma time_diff_int:
  "time_diff (map (\<lambda>block. IntV (time_of block)) bs) = Inr (minutes_apart bs)"
  unfolding time_diff_def minutes_apart_def length_map
  by (rule mapM_map) auto

lemma prepare_int:
  assumes "\<forall>block\<in>set (read_blocks fl).
             \<exists>i t. block ''block_index'' = Some (IntV i) \<and> block ''time'' = Some (IntV t)"
  shows "prepare fl = Inr (minutes_apart (sort_key index_of (read_blocks fl)))"
proof -
  have s: "sorted_blocks (read_blocks fl) = Inr (sort_key index_of (read_blocks fl))"
    using assms by (intro sorted_blocks_int) blast
  have t: "block_times (sort_key index_of (read_blocks fl)) =
             Inr (map (\<lambda>block. IntV (time_of block)) (sort_key index_of (read_blocks fl)))"
    using assms by (intro block_times_int) auto
  show ?thesis
    by (simp add: prepare_def Let_def s t time_diff_int)
qed

lemma prepare_length:
  assumes "prepare fl = Inr deltas"
  shows "length deltas = length (read_blocks fl) - 1"
proof -
  from assms obtain sb ts where s: "sorted_blocks (read_blocks fl) = Inr sb"
    and t: "block_times sb = Inr ts" and d: "time_diff ts = Inr deltas"
    by (auto simp: prepare_def Let_def split: sum.splits)
  obtain keys where k: "block_indexes (read_blocks fl) = Inr keys"
    using s by (auto simp: sorted_blocks_def split: sum.splits)
  then have "length keys = length (read_blocks fl)"
    by (simp add: block_indexes_def mapM_length)
  then have "length sb = length (read_blocks fl)"
    using s k by (auto simp: sorted_blocks_def split: if_splits)
  moreover have "length ts = length sb"
    using t by (simp add: block_times_def mapM_length)
  moreover have "length deltas = length ts - 1"
    using mapM_length [OF d [unfolded time_diff_def]] by simp
  ultimately show ?thesis by simp
qed

text \<open>
  Claim C6. For every store whose blocks have an integer index and an integer time, the
  third cell returns the series of \<open>(time[i] - time[i-1]) / 60\<close> over the blocks sorted
  ascending by index (the stable sort of the blocks read); its length is the number of
  blocks less one, and it is empty for at most one block.
\<close>

theorem time_diff_series:
  assumes "\<forall>block\<in>set (read_blocks fl).
             \<exists>i t. block ''block_index'' = Some (IntV i) \<and> block ''time'' = Some (IntV t)"
  shows "prepare fl =
           Inr (map (\<lambda>i. real_of_int (time_of (sort_key index_of (read_blocks fl) ! i)
                                    - time_of (sort_key index_of (read_blocks fl) ! (i - 1))) / 60)
                  [1..<length (read_blocks fl)])
     \<and> sorted (map index_of (sort_key index_of (read_blocks fl)))
     \<and> mset (sort_key index_of (read_blocks fl)) = mset (read_blocks fl)
     \<and> (\<exists>deltas. prepare fl = Inr deltas \<and> length deltas = length (read_blocks fl) - 1)
     \<and> (length (read_blocks fl) \<le> 1 \<longrightarrow> prepare fl = Inr [])"
proof -
  have p: "prepare fl = Inr (minutes_apart (sort_key index_of (read_blocks fl)))"
    using assms by (rule prepare_int)
  then have "length (read_blocks fl) \<le> 1 \<longrightarrow> prepare fl = Inr []"
    by (simp add: minutes_apart_def)
  moreover have "\<exists>deltas. prepare fl = Inr deltas \<and> length deltas = length (read_blocks fl) - 1"
    using p prepare_length by blast
  ultimately show ?thesis
    using p by (simp add: minutes_apart_def)
qed

theorem time_diff_series_witness:
  "prepare [[example_block 1 600, example_block 2 1500], [example_block 0 0]] = Inr [10, 15]"
proof -
  let ?fl = "[[example_block 1 600, example_block 2 1500], [example_block 0 0]]"
  have wf: "\<forall>block\<in>set (read_blocks ?fl).
             \<exists>i t. block ''block_index'' = Some (IntV i) \<and> block ''time'' = Some (IntV t)"
    by (simp add: read_blocks_def example_block_def)
  have r: "read_blocks ?fl = [example_block 1 600, example_block 2 1500, example_block 0 0]"
    by (simp add: read_blocks_def)
  have i: "index_of (example_block i t) = i" "time_of (example_block i t) = t" for i t
    by (simp_all add: index_of_def time_of_def example_block_def)
  have s: "sort_key index_of [example_block 1 600, example_block 2 1500, example_block 0 0]
             = [example_block 0 0, example_block 1 600, example_block 2 1500]"
    by (simp add: i)
  have u: "[1..<3] = [1, 2]"
    by (simp add: upt_rec)
  from time_diff_series [OF wf] show ?thesis
    unfolding r s by (simp add: u i)
qed

lemma sorted_blocks_mset:
  assumes "sorted_blocks blocks = Inr sb"
  shows "mset sb = mset blocks"
proof -
  from assms obtain keys where k: "block_indexes blocks = Inr keys"
    by (auto simp: sorted_blocks_def split: sum.splits)
  then have len: "length keys = length blocks"
    by (simp add: block_indexes_def mapM_length)
  have z: "mset (map snd (sort_key fst (zip ks blocks))) = mset blocks"
    if "length ks = length blocks" for ks :: "'k::linorder list"
  proof -
    have "mset (map snd (sort_key fst (zip ks blocks))) = image_mset snd (mset (zip ks blocks))"
      by simp
    also have "\<dots> = mset (map snd (zip ks blocks))"
      by simp
    also have "\<dots> = mset blocks"
      using that by simp
    finally show ?thesis .
  qed
  from assms k consider "sb = map snd (sort_key fst (zip (map the_int keys) blocks))"
    | "sb = map snd (sort_key fst (zip (map the_str keys) blocks))"
    by (auto simp: sorted_blocks_def split: if_splits)
  then show ?thesis
    by cases (simp_all only: z [of "map the_int keys"] z [of "map the_str keys"] len length_map)
qed

lemma delta_of_pair:
  assumes "block_times sb = Inr ts" and "time_diff ts = Inr deltas"
    and "0 < i" and "i < length sb"
  shows "\<exists>a b. (sb ! i) ''time'' = Some (IntV a) \<and> (sb ! (i - 1)) ''time'' = Some (IntV b)
           \<and> deltas ! (i - 1) = real_of_int (a - b) / 60"
proof -
  have len: "length ts = length sb"
    using assms(1) by (simp add: block_times_def mapM_length)
  have g: "getitem (sb ! j) ''time'' = Inr (ts ! j)" if "j < length sb" for j
    using mapM_nth [OF assms(1) [unfolded block_times_def] that] .
  have t: "(sb ! j) ''time'' = Some (ts ! j)" if "j < length sb" for j
    using g [OF that] by (auto simp: getitem_def split: option.splits)
  have "i - 1 < length [1..<length ts]"
    using assms(3,4) len by simp
  from mapM_nth [OF assms(2) [unfolded time_diff_def] this]
  have m: "minutes_between (ts ! i) (ts ! (i - 1)) = Inr (deltas ! (i - 1))"
    using assms(3,4) len by simp
  have "\<exists>a b. ts ! i = IntV a \<and> ts ! (i - 1) = IntV b
           \<and> deltas ! (i - 1) = real_of_int (a - b) / 60"
  proof (cases "ts ! i")
    case (IntV a)
    show ?thesis
    proof (cases "ts ! (i - 1)")
      case b: (IntV b)
      from m have "Inr (real_of_int (a - b) / 60) = (Inr (deltas ! (i - 1)) :: error + real)"
        by (simp only: IntV b minutes_between.simps)
      then have "deltas ! (i - 1) = real_of_int (a - b) / 60"
        by (simp only: sum.inject)
      with IntV b show ?thesis by blast
    next
      case (StrV x)
      with m IntV show ?thesis by simp
    qed
  next
    case (StrV x)
    with m show ?thesis by simp
  qed
  then show ?thesis
    using t [of i] t [of "i - 1"] assms(3,4) by auto
qed

lemma sorted_run:
  assumes "sorted (map f xs)" and "i \<le> l" and "l \<le> j" and "j < length xs" and "f (xs ! i) = f (xs ! j)"
  shows "f (xs ! l) = f (xs ! i)"
proof -
  have "f (xs ! i) \<le> f (xs ! l)"
    using sorted_nth_mono [OF assms(1), of i l] assms(2,3,4) by simp
  moreover have "f (xs ! l) \<le> f (xs ! j)"
    using sorted_nth_mono [OF assms(1), of l j] assms(2,3,4) by simp
  ultimately show ?thesis
    using assms(5) by simp
qed

text \<open>
  Claim C10. No cell removes a duplicate. Dumping a page adds all of its blocks to what is
  read back; the second cell, when it completes, leaves a file that reads as the blocks read
  before followed by the added ones; sorting keeps every block with its multiplicity; the
  delta series has one entry less than there are blocks, duplicates counted; and each block
  after the first contributes the delta to its predecessor in the sorted list, whatever the
  sign of the difference. For blocks with integer indices the sorted list is the stable sort
  by index: it ascends by index, the blocks of one index keep their order in the file, and
  they stand next to one another, so that each of them after the first contributes the delta
  to the one before it. With integer times as well, the third cell returns the minutes
  between the neighbours of that list.
\<close>

theorem no_stage_deduplicates:
  "read_blocks (dump page out) = read_blocks out @ page
   \<and> (reconciler iter get fl = Inr fl' \<longrightarrow> (\<exists>added. read_blocks fl' = read_blocks fl @ added))
   \<and> (sorted_blocks blocks = Inr sb \<longrightarrow> mset sb = mset blocks)
   \<and> (prepare fl = Inr deltas \<longrightarrow> length deltas = length (read_blocks fl) - 1)
   \<and> (sorted_blocks blocks = Inr sb \<and> block_times sb = Inr ts \<and> time_diff ts = Inr ds \<longrightarrow>
        (\<forall>i. 0 < i \<and> i < length blocks \<longrightarrow>
           (\<exists>a b. (sb ! i) ''time'' = Some (IntV a) \<and> (sb ! (i - 1)) ''time'' = Some (IntV b)
                  \<and> ds ! (i - 1) = real_of_int (a - b) / 60)))
   \<and> ((\<forall>block\<in>set blocks. \<exists>i. block ''block_index'' = Some (IntV i)) \<longrightarrow>
        sorted_blocks blocks = Inr (sort_key index_of blocks)
        \<and> sorted (map index_of (sort_key index_of blocks))
        \<and> (\<forall>k. filter (\<lambda>block. index_of block = k) (sort_key index_of blocks)
                 = filter (\<lambda>block. index_of block = k) blocks)
        \<and> (\<forall>i l j. i \<le> l \<and> l \<le> j \<and> j < length blocks
               \<and> index_of (sort_key index_of blocks ! i) = index_of (sort_key index_of blocks ! j) \<longrightarrow>
               index_of (sort_key index_of blocks ! l) = index_of (sort_key index_of blocks ! i)))
   \<and> ((\<forall>block\<in>set (read_blocks fl).
          \<exists>i t. block ''block_index'' = Some (IntV i) \<and> block ''time'' = Some (IntV t)) \<longrightarrow>
        prepare fl = Inr (minutes_apart (sort_key index_of (read_blocks fl))))"
proof (intro conjI impI allI)
  show "read_blocks (dump page out) = read_blocks out @ page"
    by (simp add: read_blocks_concat dump_def)
next
  assume "reconciler iter get fl = Inr fl'"
  from reconciler_rewrites [OF this] show "\<exists>added. read_blocks fl' = read_blocks fl @ added"
    by (auto simp: read_blocks_concat)
next
  assume "sorted_blocks blocks = Inr sb"
  then show "mset sb = mset blocks"
    by (rule sorted_blocks_mset)
next
  assume "prepare fl = Inr deltas"
  then show "length deltas = length (read_blocks fl) - 1"
    by (rule prepare_length)
next
  fix i
  assume a: "sorted_blocks blocks = Inr sb \<and> block_times sb = Inr ts \<and> time_diff ts = Inr ds"
    and i: "0 < i \<and> i < length blocks"
  from a have "length sb = length blocks"
    using sorted_blocks_mset mset_eq_length by blast
  with a i show "\<exists>a b. (sb ! i) ''time'' = Some (IntV a) \<and> (sb ! (i - 1)) ''time'' = Some (IntV b)
                  \<and> ds ! (i - 1) = real_of_int (a - b) / 60"
    by (intro delta_of_pair [where ts=ts]) auto
next
  assume "\<forall>block\<in>set blocks. \<exists>i. block ''block_index'' = Some (IntV i)"
  then show "sorted_blocks blocks = Inr (sort_key index_of blocks)"
    by (rule sorted_blocks_int)
next
  show "sorted (map index_of (sort_key index_of blocks))"
    by simp
next
  fix k
  show "filter (\<lambda>block. index_of block = k) (sort_key index_of blocks)
          = filter (\<lambda>block. index_of block = k) blocks"
    by (rule sort_key_stable)
next
  fix i l j
  assume "i \<le> l \<and> l \<le> j \<and> j < length blocks
               \<and> index_of (sort_key index_of blocks ! i) = index_of (sort_key index_of blocks ! j)"
  then show "index_of (sort_key index_of blocks ! l) = index_of (sort_key index_of blocks ! i)"
    using sorted_run [of index_of "sort_key index_of blocks" i l j] by simp
next
  assume "\<forall>block\<in>set (read_blocks fl).
          \<exists>i t. block ''block_index'' = Some (IntV i) \<and> block ''time'' = Some (IntV t)"
  then show "prepare fl = Inr (minutes_apart (sort_key index_of (read_blocks fl)))"
    by (rule prepare_int)
qed

lemma scattered_read:
  "read_blocks scattered_store =
     [example_block 1 60, example_block 0 0, example_block 1 60,
      (example_block 1 0)(''hash'' \<mapsto> StrV ''g'')]"
  by (simp add: read_blocks_def scattered_store_def)

lemma scattered_wf:
  "\<forall>block\<in>set (read_blocks scattered_store).
     \<exists>i t. block ''block_index'' = Some (IntV i) \<and> block ''time'' = Some (IntV t)"
  by (simp add: scattered_read example_block_def)

lemma example_block_fields:
  "index_of (example_block i t) = i" "time_of (example_block i t) = t"
  "index_of ((example_block i t)(''hash'' \<mapsto> h)) = i"
  "time_of ((example_block i t)(''hash'' \<mapsto> h)) = t"
  by (simp_all add: index_of_def time_of_def example_block_def)

lemma scattered_sort:
  "sort_key index_of (read_blocks scattered_store) =
     [example_block 0 0, example_block 1 60, example_block 1 60,
      (example_block 1 0)(''hash'' \<mapsto> StrV ''g'')]"
  by (simp add: scattered_read example_block_fields)

lemma scattered_minutes:
  "minutes_apart [example_block 0 0, example_block 1 60, example_block 1 60,
      (example_block 1 0)(''hash'' \<mapsto> StrV ''g'')] = [1, 0, - 1]"
  by (simp add: minutes_apart_def example_block_fields upt_rec)

lemma scattered_times:
  "block_times [example_block 0 0, example_block 1 60, example_block 1 60,
      (example_block 1 0)(''hash'' \<mapsto> StrV ''g'')] = Inr [IntV 0, IntV 60, IntV 60, IntV 0]"
  by (simp add: block_times_def getitem_def example_block_def)

lemma scattered_diff:
  "time_diff [IntV 0, IntV 60, IntV 60, IntV 0] = Inr [1, 0, - 1]"
  by (simp add: time_diff_def upt_rec)

lemma scattered_missing: "missing_blocks (read_blocks scattered_store) = Inr {}"
proof -
  have "{0..1} - {1, 0, 1} = ({}::int set)"
    by auto
  then show ?thesis
    by (simp add: missing_blocks_def block_indexes_def scattered_read getitem_def example_block_def)
qed

lemma scattered_reconciled:
  "reconciler sorted_list_of_set unavailable scattered_store = Inr [read_blocks scattered_store]"
  using reconciler_result [of scattered_store "{}" unavailable sorted_list_of_set "[]"]
    scattered_missing
  by simp

theorem no_stage_deduplicates_witness:
  "reconciler sorted_list_of_set unavailable scattered_store
     = Inr [[example_block 1 60, example_block 0 0, example_block 1 60,
             (example_block 1 0)(''hash'' \<mapsto> StrV ''g'')]]
   \<and> sorted_blocks [example_block 1 60, example_block 0 0, example_block 1 60,
                     (example_block 1 0)(''hash'' \<mapsto> StrV ''g'')]
     = Inr [example_block 0 0, example_block 1 60, example_block 1 60,
            (example_block 1 0)(''hash'' \<mapsto> StrV ''g'')]
   \<and> mset [example_block 0 0, example_block 1 60, example_block 1 60,
            (example_block 1 0)(''hash'' \<mapsto> StrV ''g'')]
     = mset [example_block 1 60, example_block 0 0, example_block 1 60,
             (example_block 1 0)(''hash'' \<mapsto> StrV ''g'')]
   \<and> prepare scattered_store = Inr [1, 0, - 1]
   \<and> length [1, 0, - 1 :: real]
     = length [example_block 1 60, example_block 0 0, example_block 1 60,
               (example_block 1 0)(''hash'' \<mapsto> StrV ''g'')] - 1
   \<and> (\<exists>a b. ([example_block 0 0, example_block 1 60, example_block 1 60,
               (example_block 1 0)(''hash'' \<mapsto> StrV ''g'')] ! 2) ''time'' = Some (IntV a)
            \<and> ([example_block 0 0, example_block 1 60, example_block 1 60,
                 (example_block 1 0)(''hash'' \<mapsto> StrV ''g'')] ! (2 - 1)) ''time'' = Some (IntV b)
            \<and> [1, 0, - 1 :: real] ! (2 - 1) = real_of_int (a - b) / 60)"
proof -
  let ?bs = "[example_block 1 60, example_block 0 0, example_block 1 60,
              (example_block 1 0)(''hash'' \<mapsto> StrV ''g'')]"
  let ?sb = "[example_block 0 0, example_block 1 60, example_block 1 60,
              (example_block 1 0)(''hash'' \<mapsto> StrV ''g'')]"
  note inst = no_stage_deduplicates [where iter=sorted_list_of_set and get=unavailable
      and fl=scattered_store and blocks="read_blocks scattered_store" and sb="?sb"
      and deltas="[1, 0, - 1]" and ts="[IntV 0, IntV 60, IntV 60, IntV 0]" and ds="[1, 0, - 1]"]
  have int_idx: "\<forall>block\<in>set (read_blocks scattered_store). \<exists>i. block ''block_index'' = Some (IntV i)"
    using scattered_wf by blast
  from inst int_idx have "sorted_blocks (read_blocks scattered_store)
      = Inr (sort_key index_of (read_blocks scattered_store))"
    by blast
  then have s: "sorted_blocks (read_blocks scattered_store) = Inr ?sb"
    by (simp only: scattered_sort)
  from inst scattered_wf have "prepare scattered_store
      = Inr (minutes_apart (sort_key index_of (read_blocks scattered_store)))"
    by blast
  then have p: "prepare scattered_store = Inr [1, 0, - 1]"
    by (simp only: scattered_sort scattered_minutes)
  from inst s have m: "mset ?sb = mset (read_blocks scattered_store)"
    by blast
  from inst p have l: "length [1, 0, - 1 :: real] = length (read_blocks scattered_store) - 1"
    by blast
  have two: "0 < (2::nat) \<and> 2 < length (read_blocks scattered_store)"
    by (simp add: scattered_read)
  from inst s scattered_times scattered_diff two
  have d: "\<exists>a b. (?sb ! 2) ''time'' = Some (IntV a) \<and> (?sb ! (2 - 1)) ''time'' = Some (IntV b)
            \<and> [1, 0, - 1 :: real] ! (2 - 1) = real_of_int (a - b) / 60"
    by blast
  from scattered_reconciled s m p l d show ?thesis
    unfolding scattered_read by (intro conjI) assumption+
qed

end
